theory Spec2Isabelle
  imports Main "HOL-Library.AList"
begin

section \<open>Data of the session\<close>

text \<open>
  The bridge of \<^verbatim>\<open>src/src/FoxgloveRos.ts\<close> (class \<^verbatim>\<open>FoxgloveSocket\<close>) is modelled by
  explicit state passing. A JavaScript \<^verbatim>\<open>Map\<close> is an association list: \<open>AList.update\<close>
  is \<^verbatim>\<open>set\<close> (an existing key keeps its place, a new key goes last), \<open>AList.delete\<close> is
  \<^verbatim>\<open>delete\<close>, \<open>map_of\<close> is \<^verbatim>\<open>get\<close>.

  A property that should hold a string is read from unvalidated wire data: it is nullish
  (\<^verbatim>\<open>undefined\<close> or \<^verbatim>\<open>null\<close>), some other value that is not a string, or a string.
\<close>

datatype jsstring = Nullish | NotAString | Text string

text \<open>\<^verbatim>\<open>a ?? b\<close>\<close>

definition nullish_coalescing :: "jsstring \<Rightarrow> jsstring \<Rightarrow> jsstring" where
  "nullish_coalescing a b = (case a of Nullish \<Rightarrow> b | _ \<Rightarrow> a)"

text \<open>The \<^verbatim>\<open>request\<close> and \<^verbatim>\<open>response\<close> parts of a service.\<close>

record MessageSchema =
  ms_encoding :: string
  ms_schemaName :: string
  ms_schemaEncoding :: string
  ms_schema :: jsstring

record Channel =
  ch_id :: nat
  ch_topic :: string
  ch_encoding :: string
  ch_schemaName :: string
  ch_schema :: jsstring
  ch_schemaEncoding :: "string option"

record Service =
  sv_id :: nat
  sv_name :: string
  sv_type :: string
  sv_request :: "MessageSchema option"
  sv_response :: "MessageSchema option"
  sv_requestSchema :: jsstring
  sv_responseSchema :: jsstring

text \<open>
  \<^verbatim>\<open>Channel | Service\<close>, told apart in the source by \<^verbatim>\<open>'schema' in channelOrService\<close>:
  a channel carries the key \<^verbatim>\<open>schema\<close>, a service does not.
\<close>

datatype ChannelOrService = IsChannel Channel | IsService Service

text \<open>
  The parsers and the serialisation classes are libraries. A parsed definition, a compiled
  reader or writer, encoded bytes and a decoded message are the terms that say how they were
  made. The number in a reader or writer is the identity of the object: the count of objects
  constructed before it.
\<close>

datatype MessageDefinition = parseRos2idl string | parse string bool

datatype MessageReader =
    Ros1MessageReader nat MessageDefinition
  | Ros2MessageReader nat MessageDefinition

datatype MessageWriter =
    Ros1MessageWriter nat MessageDefinition
  | Ros2MessageWriter nat MessageDefinition

type_synonym jsvalue = string
type_synonym bytes = "nat list"

datatype encoded = writeMessage MessageWriter jsvalue
datatype decoded = readMessage MessageReader bytes

text \<open>
  A call into the libraries returns or throws: the parsers throw on text that is not a
  definition, \<^verbatim>\<open>readMessage\<close> on bytes the reader cannot decode, \<^verbatim>\<open>writeMessage\<close> on a value the
  writer cannot encode. Which calls return is a parameter of the model:
  \<open>new_MessageReader\<close> and \<open>new_MessageWriter\<close> say whether the expression
  \<^verbatim>\<open>new Ros2MessageReader(parse(schema, ...))\<close> (or its like for the other class, the other
  parser, a writer) returns, given the parser call in it; \<open>can_readMessage\<close> and
  \<open>can_writeMessage\<close> say whether \<^verbatim>\<open>reader.readMessage(data)\<close> and \<^verbatim>\<open>writer.writeMessage(msg)\<close>
  return. A call that does not return throws an error of the library.
\<close>

record library =
  new_MessageReader :: "MessageDefinition \<Rightarrow> bool"
  new_MessageWriter :: "MessageDefinition \<Rightarrow> bool"
  can_readMessage :: "MessageReader \<Rightarrow> bytes \<Rightarrow> bool"
  can_writeMessage :: "MessageWriter \<Rightarrow> jsvalue \<Rightarrow> bool"

text \<open>
  A parameter value, and \<^verbatim>\<open>JSON.stringify\<close> of it. Booleans are written out; any other
  defined value stands for its JSON text.
\<close>

datatype param_value = PBool bool | PJson string | PUndefined

fun JSON_stringify :: "param_value \<Rightarrow> string option" where
  "JSON_stringify (PBool b) = Some (if b then ''true'' else ''false'')"
| "JSON_stringify (PJson txt) = Some txt"
| "JSON_stringify PUndefined = None"

text \<open>
  The text handed to \<^verbatim>\<open>JSON.parse\<close>, as the parser sees it: the value it denotes, or text
  on which \<^verbatim>\<open>JSON.parse\<close> throws.
\<close>

datatype json_text = ValidJSON param_value | InvalidJSON

record Parameter =
  p_name :: string
  p_value :: param_value

datatype error = SchemaNotFound | SyntaxError | LibraryError

section \<open>Verbs and events\<close>

text \<open>
  The object passed to \<^verbatim>\<open>send\<close>. Every verb reads the properties it needs; the others are
  ignored.
\<close>

record args =
  a_name :: string
  a_value :: json_text
  a_topic :: string
  a_service :: string
  a_object :: jsvalue

record message =
  m_op :: string
  m_id :: string
  m_topic :: string
  m_type :: string
  m_msg :: jsvalue
  m_service :: string
  m_args :: args

record MessageData =
  md_subscriptionId :: nat
  md_data :: bytes

record ServiceCallResponse =
  scr_serviceId :: nat
  scr_callId :: nat
  scr_data :: bytes

record ServiceCallFailure =
  scf_serviceId :: nat
  scf_callId :: nat
  scf_message :: string

record ParameterValues =
  pv_id :: "string option"
  pv_parameters :: "Parameter list"

datatype event =
    ev_advertise "Channel list"
  | ev_unadvertise "nat list"
  | ev_advertiseServices "Service list"
  | ev_unadvertiseServices "nat list"
  | ev_message MessageData
  | ev_serviceCallResponse ServiceCallResponse
  | ev_serviceCallFailure ServiceCallFailure
  | ev_parameterValues ParameterValues
  | ev_connectionGraphUpdate "string list"
  | ev_open
  | ev_close jsvalue
  | ev_error jsvalue

text \<open>What \<^verbatim>\<open>ros.emit\<close> is given as its second argument.\<close>

datatype emitted_values =
    Decoded decoded
  | FailureMessage string
  | ParamValue "string option"
  | TopicsAndTypes "string list" "string list"
  | ServiceNames "string list"
  | TypeName string

datatype emitted =
    Envelope "emitted_values option" bool
  | TopicMessage decoded
  | Lifecycle "jsvalue option"

text \<open>
  Everything the bridge does to its surroundings, in order: commands to the transport
  client, emissions on the \<^verbatim>\<open>Ros\<close> object, console output, and errors that leave the
  bridge (a rejected promise nobody handles, an exception thrown into the transport's
  event dispatch).
\<close>

datatype effect =
    client_advertise string string string
  | client_unadvertise nat
  | sendMessage nat encoded
  | client_subscribe nat
  | client_unsubscribe nat
  | sendServiceCallRequest nat nat string encoded
  | getParameters "string list" string
  | setParameters "(string \<times> param_value) list" string
  | subscribeConnectionGraph
  | unsubscribeConnectionGraph
  | client_close
  | ros_emit string emitted
  | console_error message
  | console_log ChannelOrService
  | unhandled_rejection error
  | uncaught error

section \<open>Listeners, promises and the state\<close>

text \<open>
  A listener closure is the data it captured. The promise stored in \<^verbatim>\<open>#publishByName\<close>
  is a reference into a store, since a publish may wait on a promise that a later
  \<^verbatim>\<open>advertise\<close> has replaced in the map. The function a publish promise resolves to is the
  publisher id and the writer it closes over.

  The state holds the private fields of \<^verbatim>\<open>FoxgloveSocket\<close>, \<^verbatim>\<open>isConnected\<close> of the \<^verbatim>\<open>Ros\<close>
  object, and what the model needs of the surroundings: the libraries, the promise store,
  the publisher and subscription ids the transport client hands out (numbered in order),
  the listeners the bridge has registered on the transport client for each event, the
  queue of microtasks, and the trace. \<^verbatim>\<open>#callId\<close> is a natural number: a session does not reach the
  \<open>2\<^sup>5\<^sup>3\<close> calls at which a JavaScript number stops counting. Callbacks that the
  application has registered on the \<^verbatim>\<open>Ros\<close> object run outside the bridge; an emission is an
  entry of the trace, and a verb such a callback issues is a further input.
\<close>

type_synonym publish_fn = "nat \<times> MessageWriter"

datatype promise = Pending "jsvalue list" | Resolved publish_fn

datatype awaiting_channel = advertise_then nat nat | subscribe_await message

datatype microtask =
    channel_resolved awaiting_channel Channel
  | service_resolved message Service
  | publish_resolved "publish_fn option" jsvalue

record MessageListener =
  ml_subscriptionId :: nat
  ml_channel :: Channel
  ml_topic :: string

record ResponseListener =
  rl_service :: Service
  rl_callId :: nat
  rl_reader :: MessageReader
  rl_id :: string

record FailureListener =
  fl_service :: Service
  fl_callId :: nat
  fl_id :: string

datatype ParameterListener = getParam_listener string string | setParam_listener string string

record state =
  lib :: library
  isRos2 :: bool
  isConnected :: bool
  messageReaders :: "(string \<times> MessageReader) list"
  messageWriters :: "(string \<times> MessageWriter) list"
  constructed :: nat
  channelsById :: "(nat \<times> Channel) list"
  channelsByName :: "(string \<times> Channel) list"
  servicesById :: "(nat \<times> Service) list"
  servicesByName :: "(string \<times> Service) list"
  unadvertiseByName :: "(string \<times> nat) list"
  publishByName :: "(string \<times> nat) list"
  unsubscribeByName :: "(string \<times> MessageListener) list"
  callId :: nat
  promises :: "(nat \<times> promise) list"
  nextPromise :: nat
  nextPublisherId :: nat
  nextSubscriptionId :: nat
  on_advertise :: "(string \<times> awaiting_channel) list"
  on_advertiseServices :: "(string \<times> message) list"
  on_message :: "MessageListener list"
  on_serviceCallResponse :: "ResponseListener list"
  on_serviceCallFailure :: "FailureListener list"
  on_parameterValues :: "ParameterListener list"
  on_connectionGraphUpdate :: "string list"
  microtasks :: "microtask list"
  trace :: "effect list"

text \<open>\<^verbatim>\<open>new FoxgloveSocket(url, ros, isRos2)\<close>, in the presence of the libraries.\<close>

definition FoxgloveSocket :: "library \<Rightarrow> bool \<Rightarrow> state" where
  "FoxgloveSocket libraries ros2 =
     \<lparr>lib = libraries, isRos2 = ros2, isConnected = False,
      messageReaders = [], messageWriters = [], constructed = 0,
      channelsById = [], channelsByName = [], servicesById = [], servicesByName = [],
      unadvertiseByName = [], publishByName = [], unsubscribeByName = [],
      callId = 0, promises = [], nextPromise = 0, nextPublisherId = 0, nextSubscriptionId = 0,
      on_advertise = [], on_advertiseServices = [], on_message = [],
      on_serviceCallResponse = [], on_serviceCallFailure = [], on_parameterValues = [],
      on_connectionGraphUpdate = [], microtasks = [], trace = []\<rparr>"

section \<open>The codec caches\<close>

text \<open>
  \<^verbatim>\<open>#getMessageReader\<close> and \<^verbatim>\<open>#getMessageWriter\<close>. The result is the reader or writer, or
  the error thrown, together with the state the call leaves behind. When the parser or the
  constructor throws, the assignment and the \<^verbatim>\<open>set\<close> after it are not reached.
\<close>

definition getMessageReader :: "state \<Rightarrow> ChannelOrService \<Rightarrow> (error + MessageReader) \<times> state" where
  "getMessageReader s channelOrService =
     (let name = (case channelOrService of IsChannel c \<Rightarrow> ch_schemaName c | IsService v \<Rightarrow> sv_type v)
      in case map_of (messageReaders s) name of
           Some reader \<Rightarrow> (Inr reader, s)
         | None \<Rightarrow>
             (let schema = (case channelOrService of
                              IsChannel c \<Rightarrow> ch_schema c
                            | IsService v \<Rightarrow>
                                nullish_coalescing
                                  (case sv_response v of None \<Rightarrow> Nullish | Some r \<Rightarrow> ms_schema r)
                                  (sv_responseSchema v));
                  schemaEncoding = (case channelOrService of
                                      IsChannel c \<Rightarrow> ch_schemaEncoding c
                                    | IsService v \<Rightarrow> map_option ms_schemaEncoding (sv_response v))
              in case schema of
                   Text txt \<Rightarrow>
                     (let definitions =
                            (if isRos2 s
                             then (if schemaEncoding = Some ''ros2idl''
                                   then parseRos2idl txt else parse txt True)
                             else parse txt False)
                      in if new_MessageReader (lib s) definitions
                         then (let reader =
                                     (if isRos2 s
                                      then Ros2MessageReader (constructed s) definitions
                                      else Ros1MessageReader (constructed s) definitions)
                               in (Inr reader,
                                   s\<lparr>constructed := Suc (constructed s),
                                     messageReaders := AList.update name reader (messageReaders s)\<rparr>))
                         else (Inl LibraryError, s))
                 | _ \<Rightarrow> (Inl SchemaNotFound, s\<lparr>trace := trace s @ [console_log channelOrService]\<rparr>)))"

definition getMessageWriter :: "state \<Rightarrow> ChannelOrService \<Rightarrow> (error + MessageWriter) \<times> state" where
  "getMessageWriter s channelOrService =
     (let name = (case channelOrService of IsChannel c \<Rightarrow> ch_schemaName c | IsService v \<Rightarrow> sv_type v)
      in case map_of (messageWriters s) name of
           Some writer \<Rightarrow> (Inr writer, s)
         | None \<Rightarrow>
             (let schema = (case channelOrService of
                              IsChannel c \<Rightarrow> ch_schema c
                            | IsService v \<Rightarrow>
                                nullish_coalescing
                                  (case sv_request v of None \<Rightarrow> Nullish | Some r \<Rightarrow> ms_schema r)
                                  (sv_requestSchema v));
                  schemaEncoding = (case channelOrService of
                                      IsChannel c \<Rightarrow> ch_schemaEncoding c
                                    | IsService v \<Rightarrow> map_option ms_schemaEncoding (sv_request v))
              in case schema of
                   Text txt \<Rightarrow>
                     (let definitions =
                            (if isRos2 s
                             then (if schemaEncoding = Some ''ros2idl''
                                   then parseRos2idl txt else parse txt True)
                             else parse txt False)
                      in if new_MessageWriter (lib s) definitions
                         then (let writer =
                                     (if isRos2 s
                                      then Ros2MessageWriter (constructed s) definitions
                                      else Ros1MessageWriter (constructed s) definitions)
                               in (Inr writer,
                                   s\<lparr>constructed := Suc (constructed s),
                                     messageWriters := AList.update name writer (messageWriters s)\<rparr>))
                         else (Inl LibraryError, s))
                 | _ \<Rightarrow> (Inl SchemaNotFound, s)))"

section \<open>The directory\<close>

text \<open>
  The four handlers the constructor registers on the transport client. Each runs the loop of
  the source over the batch the event carries.
\<close>

definition advertise_handler :: "state \<Rightarrow> Channel list \<Rightarrow> state" where
  "advertise_handler s channels =
     foldl (\<lambda>s channel.
              s\<lparr>channelsById := AList.update (ch_id channel) channel (channelsById s),
                channelsByName := AList.update (ch_topic channel) channel (channelsByName s)\<rparr>)
       s channels"

definition unadvertise_handler :: "state \<Rightarrow> nat list \<Rightarrow> state" where
  "unadvertise_handler s channelIds =
     foldl (\<lambda>s channelId.
              case map_of (channelsById s) channelId of
                Some channel \<Rightarrow>
                  s\<lparr>channelsById := AList.delete (ch_id channel) (channelsById s),
                    channelsByName := AList.delete (ch_topic channel) (channelsByName s)\<rparr>
              | None \<Rightarrow> s)
       s channelIds"

definition advertiseServices_handler :: "state \<Rightarrow> Service list \<Rightarrow> state" where
  "advertiseServices_handler s services =
     foldl (\<lambda>s service.
              s\<lparr>servicesById := AList.update (sv_id service) service (servicesById s),
                servicesByName := AList.update (sv_name service) service (servicesByName s)\<rparr>)
       s services"

definition unadvertiseServices_handler :: "state \<Rightarrow> nat list \<Rightarrow> state" where
  "unadvertiseServices_handler s serviceIds =
     foldl (\<lambda>s serviceId.
              case map_of (servicesById s) serviceId of
                Some service \<Rightarrow>
                  s\<lparr>servicesById := AList.delete (sv_id service) (servicesById s),
                    servicesByName := AList.delete (sv_name service) (servicesByName s)\<rparr>
              | None \<Rightarrow> s)
       s serviceIds"

text \<open>
  \<^verbatim>\<open>#getChannel\<close> and \<^verbatim>\<open>#getService\<close>, with what the caller does with the result as the
  last argument. A name that the name index holds settles the returned promise at once, and
  the caller goes on in a microtask; otherwise a listener for the name is registered on the
  transport client.
\<close>

definition getChannel :: "state \<Rightarrow> string \<Rightarrow> awaiting_channel \<Rightarrow> state" where
  "getChannel s name k =
     (case map_of (channelsByName s) name of
        Some channel \<Rightarrow> s\<lparr>microtasks := microtasks s @ [channel_resolved k channel]\<rparr>
      | None \<Rightarrow> s\<lparr>on_advertise := on_advertise s @ [(name, k)]\<rparr>)"

definition getService :: "state \<Rightarrow> string \<Rightarrow> message \<Rightarrow> state" where
  "getService s name k =
     (case map_of (servicesByName s) name of
        Some service \<Rightarrow> s\<lparr>microtasks := microtasks s @ [service_resolved k service]\<rparr>
      | None \<Rightarrow> s\<lparr>on_advertiseServices := on_advertiseServices s @ [(name, k)]\<rparr>)"

text \<open>
  The listeners that \<^verbatim>\<open>#getChannel\<close> and \<^verbatim>\<open>#getService\<close> register: the first entry of the
  batch with the name, if there is one, detaches the listener and settles its promise.
\<close>

definition getChannel_listener :: "Channel list \<Rightarrow> state \<Rightarrow> string \<times> awaiting_channel \<Rightarrow> state" where
  "getChannel_listener channels s l =
     (case find (\<lambda>channel. ch_topic channel = fst l) channels of
        Some channel \<Rightarrow>
          s\<lparr>on_advertise := removeAll l (on_advertise s),
            microtasks := microtasks s @ [channel_resolved (snd l) channel]\<rparr>
      | None \<Rightarrow> s)"

definition getService_listener :: "Service list \<Rightarrow> state \<Rightarrow> string \<times> message \<Rightarrow> state" where
  "getService_listener services s l =
     (case find (\<lambda>service. sv_name service = fst l) services of
        Some service \<Rightarrow>
          s\<lparr>on_advertiseServices := removeAll l (on_advertiseServices s),
            microtasks := microtasks s @ [service_resolved (snd l) service]\<rparr>
      | None \<Rightarrow> s)"

section \<open>Topics\<close>

definition advertise :: "state \<Rightarrow> message \<Rightarrow> state" where
  "advertise s m =
     (let publisherId = nextPublisherId s;
          s1 = s\<lparr>nextPublisherId := Suc publisherId,
                 trace := trace s @ [client_advertise (m_topic m)
                                       (if isRos2 s then ''cdr'' else ''ros1'') (m_type m)]\<rparr>;
          publish = nextPromise s1;
          s2 = s1\<lparr>nextPromise := Suc publish,
                  promises := AList.update publish (Pending []) (promises s1)\<rparr>;
          s3 = getChannel s2 (m_topic m) (advertise_then publisherId publish)
      in s3\<lparr>unadvertiseByName := AList.update (m_topic m) publisherId (unadvertiseByName s3),
            publishByName := AList.update (m_topic m) publish (publishByName s3)\<rparr>)"

definition unadvertise :: "state \<Rightarrow> message \<Rightarrow> state" where
  "unadvertise s m =
     (let s1 = (case map_of (unadvertiseByName s) (m_topic m) of
                  Some publisherId \<Rightarrow> s\<lparr>trace := trace s @ [client_unadvertise publisherId]\<rparr>
                | None \<Rightarrow> s)
      in s1\<lparr>unadvertiseByName := AList.delete (m_topic m) (unadvertiseByName s1)\<rparr>)"

text \<open>
  \<^verbatim>\<open>#publish\<close> awaits what \<^verbatim>\<open>#publishByName\<close> holds for the topic: nothing, a promise
  already resolved, or a pending promise, on which the message waits.
\<close>

definition publish :: "state \<Rightarrow> message \<Rightarrow> state" where
  "publish s m =
     (case map_of (publishByName s) (m_topic m) of
        None \<Rightarrow> s\<lparr>microtasks := microtasks s @ [publish_resolved None (m_msg m)]\<rparr>
      | Some p \<Rightarrow>
          (case map_of (promises s) p of
             Some (Resolved f) \<Rightarrow>
               s\<lparr>microtasks := microtasks s @ [publish_resolved (Some f) (m_msg m)]\<rparr>
           | Some (Pending waiting) \<Rightarrow>
               s\<lparr>promises := AList.update p (Pending (waiting @ [m_msg m])) (promises s)\<rparr>
           | None \<Rightarrow> s))"

text \<open>\<^verbatim>\<open>resolve(...)\<close> of a publish promise: the messages waiting on it go on, in order.\<close>

definition resolve :: "state \<Rightarrow> nat \<Rightarrow> publish_fn \<Rightarrow> state" where
  "resolve s p f =
     (case map_of (promises s) p of
        Some (Pending waiting) \<Rightarrow>
          s\<lparr>promises := AList.update p (Resolved f) (promises s),
            microtasks := microtasks s @ map (publish_resolved (Some f)) waiting\<rparr>
      | _ \<Rightarrow> s)"

definition subscribe :: "state \<Rightarrow> message \<Rightarrow> state" where
  "subscribe s m = getChannel s (m_topic m) (subscribe_await m)"

text \<open>\<^verbatim>\<open>#subscribe\<close> after its \<^verbatim>\<open>await\<close>.\<close>

definition subscribe_resumed :: "state \<Rightarrow> message \<Rightarrow> Channel \<Rightarrow> state" where
  "subscribe_resumed s m channel =
     (let subscriptionId = nextSubscriptionId s;
          listener = \<lparr>ml_subscriptionId = subscriptionId, ml_channel = channel,
                      ml_topic = m_topic m\<rparr>
      in s\<lparr>nextSubscriptionId := Suc subscriptionId,
           trace := trace s @ [client_subscribe (ch_id channel)],
           unsubscribeByName := AList.update (m_topic m) listener (unsubscribeByName s),
           on_message := on_message s @ [listener]\<rparr>)"

definition unsubscribe :: "state \<Rightarrow> message \<Rightarrow> state" where
  "unsubscribe s m =
     (let s1 = (case map_of (unsubscribeByName s) (m_topic m) of
                  Some listener \<Rightarrow>
                    s\<lparr>on_message := removeAll listener (on_message s),
                      trace := trace s @ [client_unsubscribe (ml_subscriptionId listener)]\<rparr>
                | None \<Rightarrow> s)
      in s1\<lparr>unsubscribeByName := AList.delete (m_topic m) (unsubscribeByName s1)\<rparr>)"

section \<open>Services and parameters\<close>

text \<open>\<^verbatim>\<open>String.prototype.replace\<close> with a one-character pattern: the first occurrence only.\<close>

fun replace :: "string \<Rightarrow> char \<Rightarrow> char \<Rightarrow> string" where
  "replace [] pattern replacement = []"
| "replace (c # cs) pattern replacement =
     (if c = pattern then replacement # cs else c # replace cs pattern replacement)"

definition getParam :: "state \<Rightarrow> message \<Rightarrow> state" where
  "getParam s m =
     (let name = replace (a_name (m_args m)) CHR '':'' CHR ''.''
      in s\<lparr>on_parameterValues := on_parameterValues s @ [getParam_listener name (m_id m)],
           trace := trace s @ [getParameters [name] (m_id m)]\<rparr>)"

text \<open>
  \<^verbatim>\<open>#setParam\<close> registers its listener before \<^verbatim>\<open>JSON.parse\<close> is evaluated, so the listener
  stays when the parse throws.
\<close>

definition setParam :: "state \<Rightarrow> message \<Rightarrow> error option \<times> state" where
  "setParam s m =
     (let name = replace (a_name (m_args m)) CHR '':'' CHR ''.'';
          s1 = s\<lparr>on_parameterValues := on_parameterValues s @ [setParam_listener name (m_id m)]\<rparr>
      in case a_value (m_args m) of
           ValidJSON v \<Rightarrow> (None, s1\<lparr>trace := trace s1 @ [setParameters [(name, v)] (m_id m)]\<rparr>)
         | InvalidJSON \<Rightarrow> (Some SyntaxError, s1))"

definition getTopics :: "state \<Rightarrow> message \<Rightarrow> state" where
  "getTopics s m =
     s\<lparr>trace := trace s @
          [ros_emit (m_id m)
             (Envelope (Some (TopicsAndTypes (map fst (channelsByName s))
                                (map (\<lambda>x. ch_schemaName (snd x)) (channelsByName s)))) True)]\<rparr>"

definition getServices :: "state \<Rightarrow> message \<Rightarrow> state" where
  "getServices s m =
     s\<lparr>on_connectionGraphUpdate := on_connectionGraphUpdate s @ [m_id m],
       trace := trace s @ [subscribeConnectionGraph]\<rparr>"

text \<open>A string is truthy when it is not empty.\<close>

definition getTopicType :: "state \<Rightarrow> message \<Rightarrow> state" where
  "getTopicType s m =
     (case map_option ch_schemaName (map_of (channelsByName s) (a_topic (m_args m))) of
        Some topicType \<Rightarrow>
          (if topicType \<noteq> []
           then s\<lparr>trace := trace s @ [ros_emit (m_id m) (Envelope (Some (TypeName topicType)) True)]\<rparr>
           else s\<lparr>trace := trace s @ [ros_emit (m_id m) (Envelope None False)]\<rparr>)
      | None \<Rightarrow> s\<lparr>trace := trace s @ [ros_emit (m_id m) (Envelope None False)]\<rparr>)"

definition getServiceType :: "state \<Rightarrow> message \<Rightarrow> state" where
  "getServiceType s m =
     (case map_option sv_type (map_of (servicesByName s) (a_service (m_args m))) of
        Some serviceType \<Rightarrow>
          (if serviceType \<noteq> []
           then s\<lparr>trace := trace s @ [ros_emit (m_id m) (Envelope (Some (TypeName serviceType)) True)]\<rparr>
           else s\<lparr>trace := trace s @ [ros_emit (m_id m) (Envelope None False)]\<rparr>)
      | None \<Rightarrow> s\<lparr>trace := trace s @ [ros_emit (m_id m) (Envelope None False)]\<rparr>)"

text \<open>
  \<^verbatim>\<open>#callService\<close> up to its \<^verbatim>\<open>await\<close>: first the chain of tests on \<^verbatim>\<open>message.type\<close>,
  then the lookup of the service. The function is \<^verbatim>\<open>async\<close>: an exception in it rejects
  the promise it returns, which \<^verbatim>\<open>send\<close> drops.
\<close>

definition callService_builtin :: "state \<Rightarrow> message \<Rightarrow> error option \<times> state" where
  "callService_builtin s m =
     (if m_type m = ''rosapi/GetParam'' then (None, getParam s m)
      else if m_type m = ''rosapi/SetParam'' then setParam s m
      else if m_type m = ''rosapi/Topics'' then (None, getTopics s m)
      else if m_type m = ''rosapi/Services'' then (None, getServices s m)
      else if m_type m = ''rosapi/TopicType'' then (None, getTopicType s m)
      else if m_type m = ''rosapi/ServiceType'' then (None, getServiceType s m)
      else if take 7 (m_type m) = ''rosapi/''
        then (None, s\<lparr>trace := trace s @ [console_error m]\<rparr>)
      else (None, s))"

definition callService :: "state \<Rightarrow> message \<Rightarrow> state" where
  "callService s m =
     (case callService_builtin s m of
        (Some e, s1) \<Rightarrow> s1\<lparr>trace := trace s1 @ [unhandled_rejection e]\<rparr>
      | (None, s1) \<Rightarrow> getService s1 (m_service m) m)"

text \<open>
  \<^verbatim>\<open>#callService\<close> after its \<^verbatim>\<open>await\<close>. The call id is taken and both listeners are
  registered before the argument of \<^verbatim>\<open>sendServiceCallRequest\<close> is evaluated; when
  \<^verbatim>\<open>writeMessage\<close> throws there, the call id is spent, the listeners stay and no request is
  sent.
\<close>

definition callService_resumed :: "state \<Rightarrow> message \<Rightarrow> Service \<Rightarrow> state" where
  "callService_resumed s m service =
     (case getMessageWriter s (IsService service) of
        (Inl e, s1) \<Rightarrow> s1\<lparr>trace := trace s1 @ [unhandled_rejection e]\<rparr>
      | (Inr writer, s1) \<Rightarrow>
          (case getMessageReader s1 (IsService service) of
             (Inl e, s2) \<Rightarrow> s2\<lparr>trace := trace s2 @ [unhandled_rejection e]\<rparr>
           | (Inr reader, s2) \<Rightarrow>
               (let callId' = callId s2;
                    s3 = s2\<lparr>callId := Suc callId',
                           on_serviceCallResponse := on_serviceCallResponse s2 @
                             [\<lparr>rl_service = service, rl_callId = callId',
                               rl_reader = reader, rl_id = m_id m\<rparr>],
                           on_serviceCallFailure := on_serviceCallFailure s2 @
                             [\<lparr>fl_service = service, fl_callId = callId', fl_id = m_id m\<rparr>]\<rparr>
                in if can_writeMessage (lib s3) writer (a_object (m_args m))
                   then s3\<lparr>trace := trace s3 @
                             [sendServiceCallRequest (sv_id service) callId'
                                (if isRos2 s3 then ''cdr'' else ''ros1'')
                                (writeMessage writer (a_object (m_args m)))]\<rparr>
                   else s3\<lparr>trace := trace s3 @ [unhandled_rejection LibraryError]\<rparr>)))"

section \<open>Listeners on the transport client\<close>

text \<open>
  A listener that detaches itself calls \<^verbatim>\<open>off\<close> with its own closure; the closure is its
  captured data. The listener of \<^verbatim>\<open>#subscribe\<close> and the response listener of
  \<^verbatim>\<open>#callService\<close> can throw; the error is the first component of their result. The response
  listener has detached itself when \<^verbatim>\<open>readMessage\<close> is evaluated.
\<close>

definition message_listener :: "MessageData \<Rightarrow> state \<Rightarrow> MessageListener \<Rightarrow> error option \<times> state" where
  "message_listener event s l =
     (if md_subscriptionId event = ml_subscriptionId l
      then (case getMessageReader s (IsChannel (ml_channel l)) of
              (Inl e, s1) \<Rightarrow> (Some e, s1)
            | (Inr reader, s1) \<Rightarrow>
                (if can_readMessage (lib s1) reader (md_data event)
                 then (None, s1\<lparr>trace := trace s1 @
                                [ros_emit (ml_topic l)
                                   (TopicMessage (readMessage reader (md_data event)))]\<rparr>)
                 else (Some LibraryError, s1)))
      else (None, s))"

definition serviceCallResponse_listener ::
  "ServiceCallResponse \<Rightarrow> state \<Rightarrow> ResponseListener \<Rightarrow> error option \<times> state" where
  "serviceCallResponse_listener event s l =
     (if scr_serviceId event = sv_id (rl_service l) \<and> scr_callId event = rl_callId l
      then (let s1 = s\<lparr>on_serviceCallResponse := removeAll l (on_serviceCallResponse s)\<rparr>
            in if can_readMessage (lib s1) (rl_reader l) (scr_data event)
               then (None, s1\<lparr>trace := trace s1 @
                              [ros_emit (rl_id l)
                                 (Envelope (Some (Decoded (readMessage (rl_reader l) (scr_data event))))
                                    True)]\<rparr>)
               else (Some LibraryError, s1))
      else (None, s))"

definition serviceCallFailure_listener :: "ServiceCallFailure \<Rightarrow> state \<Rightarrow> FailureListener \<Rightarrow> state" where
  "serviceCallFailure_listener event s l =
     (if scf_serviceId event = sv_id (fl_service l) \<and> scf_callId event = fl_callId l
      then s\<lparr>on_serviceCallFailure := removeAll l (on_serviceCallFailure s),
             trace := trace s @
               [ros_emit (fl_id l) (Envelope (Some (FailureMessage (scf_message event))) False)]\<rparr>
      else s)"

text \<open>\<^verbatim>\<open>event.parameters[0]?.name === name && event.id === message.id\<close>\<close>

definition parameter_matches :: "ParameterValues \<Rightarrow> string \<Rightarrow> string \<Rightarrow> bool" where
  "parameter_matches event name mid =
     (case pv_parameters event of
        [] \<Rightarrow> False
      | p # _ \<Rightarrow> p_name p = name \<and> pv_id event = Some mid)"

fun parameterValues_listener :: "ParameterValues \<Rightarrow> state \<Rightarrow> ParameterListener \<Rightarrow> state" where
  "parameterValues_listener event s (getParam_listener name mid) =
     (if parameter_matches event name mid
      then s\<lparr>on_parameterValues := removeAll (getParam_listener name mid) (on_parameterValues s),
             trace := trace s @
               [ros_emit mid
                  (Envelope (Some (ParamValue
                     (case pv_parameters event of
                        [] \<Rightarrow> None
                      | p # _ \<Rightarrow> JSON_stringify (p_value p)))) True)]\<rparr>
      else s)"
| "parameterValues_listener event s (setParam_listener name mid) =
     (if parameter_matches event name mid
      then s\<lparr>on_parameterValues := removeAll (setParam_listener name mid) (on_parameterValues s),
             trace := trace s @ [ros_emit mid (Envelope None True)]\<rparr>
      else s)"

definition connectionGraphUpdate_listener :: "string list \<Rightarrow> state \<Rightarrow> string \<Rightarrow> state" where
  "connectionGraphUpdate_listener advertisedServices s mid =
     s\<lparr>on_connectionGraphUpdate := removeAll mid (on_connectionGraphUpdate s),
       trace := trace s @
         [unsubscribeConnectionGraph,
          ros_emit mid (Envelope (Some (ServiceNames advertisedServices)) True)]\<rparr>"

text \<open>
  The transport client calls the listeners that are registered when the event is emitted,
  in the order of their registration. An exception in a listener ends the dispatch.
\<close>

fun emit_message :: "state \<Rightarrow> MessageData \<Rightarrow> MessageListener list \<Rightarrow> state" where
  "emit_message s event [] = s"
| "emit_message s event (l # ls) =
     (case message_listener event s l of
        (Some e, s1) \<Rightarrow> s1\<lparr>trace := trace s1 @ [uncaught e]\<rparr>
      | (None, s1) \<Rightarrow> emit_message s1 event ls)"

fun emit_serviceCallResponse :: "state \<Rightarrow> ServiceCallResponse \<Rightarrow> ResponseListener list \<Rightarrow> state" where
  "emit_serviceCallResponse s event [] = s"
| "emit_serviceCallResponse s event (l # ls) =
     (case serviceCallResponse_listener event s l of
        (Some e, s1) \<Rightarrow> s1\<lparr>trace := trace s1 @ [uncaught e]\<rparr>
      | (None, s1) \<Rightarrow> emit_serviceCallResponse s1 event ls)"

fun emit :: "state \<Rightarrow> event \<Rightarrow> state" where
  "emit s (ev_advertise channels) =
     foldl (getChannel_listener channels) (advertise_handler s channels) (on_advertise s)"
| "emit s (ev_unadvertise channelIds) = unadvertise_handler s channelIds"
| "emit s (ev_advertiseServices services) =
     foldl (getService_listener services) (advertiseServices_handler s services)
       (on_advertiseServices s)"
| "emit s (ev_unadvertiseServices serviceIds) = unadvertiseServices_handler s serviceIds"
| "emit s (ev_message event) = emit_message s event (on_message s)"
| "emit s (ev_serviceCallResponse event) =
     emit_serviceCallResponse s event (on_serviceCallResponse s)"
| "emit s (ev_serviceCallFailure event) =
     foldl (serviceCallFailure_listener event) s (on_serviceCallFailure s)"
| "emit s (ev_parameterValues event) =
     foldl (parameterValues_listener event) s (on_parameterValues s)"
| "emit s (ev_connectionGraphUpdate advertisedServices) =
     foldl (connectionGraphUpdate_listener advertisedServices) s (on_connectionGraphUpdate s)"
| "emit s ev_open =
     s\<lparr>isConnected := True, trace := trace s @ [ros_emit ''connection'' (Lifecycle None)]\<rparr>"
| "emit s (ev_close event) =
     s\<lparr>isConnected := False, trace := trace s @ [ros_emit ''close'' (Lifecycle (Some event))]\<rparr>"
| "emit s (ev_error event) =
     s\<lparr>trace := trace s @ [ros_emit ''error'' (Lifecycle (Some event))]\<rparr>"

section \<open>The verb surface and the event loop\<close>

definition send :: "state \<Rightarrow> message \<Rightarrow> state" where
  "send s m =
     (if m_op m = ''advertise'' then advertise s m
      else if m_op m = ''unadvertise'' then unadvertise s m
      else if m_op m = ''publish'' then publish s m
      else if m_op m = ''subscribe'' then subscribe s m
      else if m_op m = ''unsubscribe'' then unsubscribe s m
      else if m_op m = ''call_service'' then callService s m
      else s\<lparr>trace := trace s @ [console_error m]\<rparr>)"

definition close :: "state \<Rightarrow> state" where
  "close s = s\<lparr>trace := trace s @ [client_close]\<rparr>"

text \<open>
  What runs after an \<^verbatim>\<open>await\<close> or in a \<^verbatim>\<open>then\<close> callback runs as a microtask, after the
  synchronous code that settled the promise. The callback in \<^verbatim>\<open>#advertise\<close> compiles the
  writer; when that throws, the promise of the \<^verbatim>\<open>then\<close> is rejected and the publish promise
  stays pending. The function a publish promise resolved to runs inside the \<^verbatim>\<open>async\<close>
  \<^verbatim>\<open>#publish\<close>; when \<^verbatim>\<open>writeMessage\<close> throws in it, nothing is sent and the promise of
  \<^verbatim>\<open>#publish\<close> is rejected.
\<close>

fun run_microtask :: "state \<Rightarrow> microtask \<Rightarrow> state" where
  "run_microtask s (channel_resolved (advertise_then publisherId p) channel) =
     (case getMessageWriter s (IsChannel channel) of
        (Inl e, s1) \<Rightarrow> s1\<lparr>trace := trace s1 @ [unhandled_rejection e]\<rparr>
      | (Inr writer, s1) \<Rightarrow> resolve s1 p (publisherId, writer))"
| "run_microtask s (channel_resolved (subscribe_await m) channel) = subscribe_resumed s m channel"
| "run_microtask s (service_resolved m service) = callService_resumed s m service"
| "run_microtask s (publish_resolved None msg) = s"
| "run_microtask s (publish_resolved (Some (publisherId, writer)) msg) =
     (if can_writeMessage (lib s) writer msg
      then s\<lparr>trace := trace s @ [sendMessage publisherId (writeMessage writer msg)]\<rparr>
      else s\<lparr>trace := trace s @ [unhandled_rejection LibraryError]\<rparr>)"

text \<open>
  The microtask queue is emptied when the synchronous code of a task ends. One pass runs
  every queued job, in order; the jobs a pass queues (a publish waiting on a promise that
  the pass resolved) queue nothing themselves, so a second pass leaves the queue empty.
\<close>

definition run_queued :: "state \<Rightarrow> state" where
  "run_queued s = foldl run_microtask (s\<lparr>microtasks := []\<rparr>) (microtasks s)"

definition run_microtasks :: "state \<Rightarrow> state" where
  "run_microtasks s = run_queued (run_queued s)"

text \<open>
  A run of the session: the caller's verbs, the transport's events, and the points where
  the current task ends and the microtasks run.
\<close>

datatype input = Send message | Emit event | Close | EndOfTask

fun step :: "state \<Rightarrow> input \<Rightarrow> state" where
  "step s (Send m) = send s m"
| "step s (Emit e) = emit s e"
| "step s Close = close s"
| "step s EndOfTask = run_microtasks s"

definition run :: "state \<Rightarrow> input list \<Rightarrow> state" where
  "run s inputs = foldl step s inputs"

section \<open>Notions used to state the properties\<close>

text \<open>
  The key of both codec caches (the \<^verbatim>\<open>name\<close> constant of \<^verbatim>\<open>#getMessageReader\<close> and
  \<^verbatim>\<open>#getMessageWriter\<close>), and the schema text each of them resolves.
\<close>

definition codec_name :: "ChannelOrService \<Rightarrow> string" where
  "codec_name d = (case d of IsChannel c \<Rightarrow> ch_schemaName c | IsService v \<Rightarrow> sv_type v)"

definition reader_schema :: "ChannelOrService \<Rightarrow> jsstring" where
  "reader_schema d =
     (case d of
        IsChannel c \<Rightarrow> ch_schema c
      | IsService v \<Rightarrow>
          nullish_coalescing (case sv_response v of None \<Rightarrow> Nullish | Some r \<Rightarrow> ms_schema r)
            (sv_responseSchema v))"

definition writer_schema :: "ChannelOrService \<Rightarrow> jsstring" where
  "writer_schema d =
     (case d of
        IsChannel c \<Rightarrow> ch_schema c
      | IsService v \<Rightarrow>
          nullish_coalescing (case sv_request v of None \<Rightarrow> Nullish | Some r \<Rightarrow> ms_schema r)
            (sv_requestSchema v))"

text \<open>\<^verbatim>\<open>typeof schema === 'string'\<close>\<close>

definition is_text :: "jsstring \<Rightarrow> bool" where
  "is_text x = (case x of Text _ \<Rightarrow> True | _ \<Rightarrow> False)"

text \<open>The schema text a reader or writer was compiled from.\<close>

fun definition_text :: "MessageDefinition \<Rightarrow> string" where
  "definition_text (parseRos2idl txt) = txt"
| "definition_text (parse txt ros2) = txt"

fun reader_text :: "MessageReader \<Rightarrow> string" where
  "reader_text (Ros1MessageReader n d) = definition_text d"
| "reader_text (Ros2MessageReader n d) = definition_text d"

fun writer_text :: "MessageWriter \<Rightarrow> string" where
  "writer_text (Ros1MessageWriter n d) = definition_text d"
| "writer_text (Ros2MessageWriter n d) = definition_text d"

text \<open>The test and the emission of each correlation listener.\<close>

definition response_key :: "ServiceCallResponse \<Rightarrow> ResponseListener \<Rightarrow> bool" where
  "response_key e l \<longleftrightarrow> scr_serviceId e = sv_id (rl_service l) \<and> scr_callId e = rl_callId l"

definition response_result :: "ServiceCallResponse \<Rightarrow> ResponseListener \<Rightarrow> effect" where
  "response_result e l =
     ros_emit (rl_id l) (Envelope (Some (Decoded (readMessage (rl_reader l) (scr_data e)))) True)"

text \<open>
  What a response listener whose key matches leaves in the trace: its emission when the
  payload can be decoded, and otherwise the error that \<^verbatim>\<open>readMessage\<close> throws into the
  transport's dispatch.
\<close>

definition response_outcome :: "library \<Rightarrow> ServiceCallResponse \<Rightarrow> ResponseListener \<Rightarrow> effect" where
  "response_outcome l e x =
     (if can_readMessage l (rl_reader x) (scr_data e) then response_result e x
      else uncaught LibraryError)"

definition failure_key :: "ServiceCallFailure \<Rightarrow> FailureListener \<Rightarrow> bool" where
  "failure_key e l \<longleftrightarrow> scf_serviceId e = sv_id (fl_service l) \<and> scf_callId e = fl_callId l"

definition failure_result :: "ServiceCallFailure \<Rightarrow> FailureListener \<Rightarrow> effect" where
  "failure_result e l =
     ros_emit (fl_id l) (Envelope (Some (FailureMessage (scf_message e))) False)"

fun parameter_key :: "ParameterValues \<Rightarrow> ParameterListener \<Rightarrow> bool" where
  "parameter_key e (getParam_listener name mid) = parameter_matches e name mid"
| "parameter_key e (setParam_listener name mid) = parameter_matches e name mid"

fun parameter_result :: "ParameterValues \<Rightarrow> ParameterListener \<Rightarrow> effect" where
  "parameter_result e (getParam_listener name mid) =
     ros_emit mid
       (Envelope (Some (ParamValue
          (case pv_parameters e of [] \<Rightarrow> None | p # _ \<Rightarrow> JSON_stringify (p_value p)))) True)"
| "parameter_result e (setParam_listener name mid) = ros_emit mid (Envelope None True)"

text \<open>
  What the listener of \<^verbatim>\<open>#getChannel\<close> or \<^verbatim>\<open>#getService\<close> finds in a batch:
  \<^verbatim>\<open>channels.find((channel) => channel.topic === name)\<close>.
\<close>

definition channel_named :: "Channel list \<Rightarrow> string \<Rightarrow> Channel option" where
  "channel_named channels name = find (\<lambda>channel. ch_topic channel = name) channels"

definition service_named :: "Service list \<Rightarrow> string \<Rightarrow> Service option" where
  "service_named services name = find (\<lambda>service. sv_name service = name) services"

text \<open>The call ids of the service-call requests in a trace, in the order they were sent.\<close>

fun call_ids :: "effect list \<Rightarrow> nat list" where
  "call_ids [] = []"
| "call_ids (sendServiceCallRequest serviceId cid encoding data # es) = cid # call_ids es"
| "call_ids (e # es) = call_ids es"

text \<open>
  Five views of the state: the codec caches with the count of compiled objects, the
  directory, the bookkeeping of service calls, the schema errors that left the bridge, and
  what is fixed when the session is constructed.
\<close>

definition setting :: "state \<Rightarrow> library \<times> bool" where
  "setting s = (lib s, isRos2 s)"

definition caches :: "state \<Rightarrow> (string \<times> MessageReader) list \<times> (string \<times> MessageWriter) list \<times> nat" where
  "caches s = (messageReaders s, messageWriters s, constructed s)"

definition directory ::
  "state \<Rightarrow> (nat \<times> Channel) list \<times> (string \<times> Channel) list \<times>
           (nat \<times> Service) list \<times> (string \<times> Service) list" where
  "directory s = (channelsById s, channelsByName s, servicesById s, servicesByName s)"

definition calls :: "state \<Rightarrow> nat list \<times> nat \<times> ResponseListener list \<times> FailureListener list" where
  "calls s = (call_ids (trace s), callId s, on_serviceCallResponse s, on_serviceCallFailure s)"

definition schema_errors :: "state \<Rightarrow> effect list" where
  "schema_errors s =
     filter (\<lambda>e. e = unhandled_rejection SchemaNotFound \<or> e = uncaught SchemaNotFound) (trace s)"

text \<open>The microtasks that continue a \<^verbatim>\<open>#publish\<close>.\<close>

fun is_publish :: "microtask \<Rightarrow> bool" where
  "is_publish (publish_resolved f msg) = True"
| "is_publish t = False"

text \<open>Every codec of the first caches is still in the second, under the same name.\<close>

definition caches_kept ::
  "(string \<times> MessageReader) list \<times> (string \<times> MessageWriter) list \<times> nat \<Rightarrow>
   (string \<times> MessageReader) list \<times> (string \<times> MessageWriter) list \<times> nat \<Rightarrow> bool" where
  "caches_kept c c' \<longleftrightarrow>
     (\<forall>k r. map_of (fst c) k = Some r \<longrightarrow> map_of (fst c') k = Some r) \<and>
     (\<forall>k w. map_of (fst (snd c)) k = Some w \<longrightarrow> map_of (fst (snd c')) k = Some w)"

text \<open>
  How one operation can change the bookkeeping of service calls: not at all, by detaching
  response listeners, by detaching failure listeners, or by one call, which takes the
  current call id, registers one listener of each kind under it and increments the
  counter, and then sends its request or, when the arguments cannot be encoded, sends
  nothing.
\<close>

inductive calls_step ::
  "nat list \<times> nat \<times> ResponseListener list \<times> FailureListener list \<Rightarrow>
   nat list \<times> nat \<times> ResponseListener list \<times> FailureListener list \<Rightarrow> bool" where
  unchanged: "calls_step c c"
| responses_detached: "calls_step (ids, cid, rl, fl) (ids, cid, filter P rl, fl)"
| failures_detached: "calls_step (ids, cid, rl, fl) (ids, cid, rl, filter P fl)"
| call_sent:
    "calls_step (ids, cid, rl, fl)
       (ids @ [cid], Suc cid,
        rl @ [\<lparr>rl_service = v, rl_callId = cid, rl_reader = reader, rl_id = mid\<rparr>],
        fl @ [\<lparr>fl_service = v, fl_callId = cid, fl_id = mid\<rparr>])"
| call_not_sent:
    "calls_step (ids, cid, rl, fl)
       (ids, Suc cid,
        rl @ [\<lparr>rl_service = v, rl_callId = cid, rl_reader = reader, rl_id = mid\<rparr>],
        fl @ [\<lparr>fl_service = v, fl_callId = cid, fl_id = mid\<rparr>])"

text \<open>
  The bookkeeping is well formed when the call ids sent so far increase strictly and lie
  below the counter, and the listeners of each kind carry distinct call ids below the
  counter.
\<close>

definition calls_wf :: "nat list \<times> nat \<times> ResponseListener list \<times> FailureListener list \<Rightarrow> bool" where
  "calls_wf c =
     (case c of (ids, cid, rl, fl) \<Rightarrow>
        sorted_wrt (<) ids \<and> list_all (\<lambda>i. i < cid) ids \<and>
        list_all (\<lambda>l. rl_callId l < cid) rl \<and> distinct (map rl_callId rl) \<and>
        list_all (\<lambda>l. fl_callId l < cid) fl \<and> distinct (map fl_callId fl))"

text \<open>No response listener is registered for a call id, and the id has been used.\<close>

definition no_listener_for ::
  "nat \<Rightarrow> nat list \<times> nat \<times> ResponseListener list \<times> FailureListener list \<Rightarrow> bool" where
  "no_listener_for n c =
     (case c of (ids, cid, rl, fl) \<Rightarrow> list_all (\<lambda>x. rl_callId x \<noteq> n) rl \<and> n < cid)"

text \<open>
  A writer or a reader can be had for a descriptor when \<^verbatim>\<open>#getMessageWriter\<close> or
  \<^verbatim>\<open>#getMessageReader\<close> returns for it: a codec is cached under its name, or its schema is
  a string that the library compiles.
\<close>

definition has_writer :: "state \<Rightarrow> ChannelOrService \<Rightarrow> bool" where
  "has_writer s d = (case fst (getMessageWriter s d) of Inr w \<Rightarrow> True | Inl e \<Rightarrow> False)"

definition has_reader :: "state \<Rightarrow> ChannelOrService \<Rightarrow> bool" where
  "has_reader s d = (case fst (getMessageReader s d) of Inr r \<Rightarrow> True | Inl e \<Rightarrow> False)"

text \<open>
  Every registered response listener holds the reader that the reader cache holds under
  the type of the listener's service.
\<close>

definition readers_tied :: "state \<Rightarrow> bool" where
  "readers_tied s =
     list_all (\<lambda>l. map_of (messageReaders s) (sv_type (rl_service l)) = Some (rl_reader l))
       (on_serviceCallResponse s)"

text \<open>
  The id index and the name index of one kind of entity are consistent when each is a map
  with one entry per key, every entry stands under its own id and its own name, and an
  entry of one index is the entry the other index holds for it.
\<close>

definition index_consistent ::
  "('a \<Rightarrow> nat) \<Rightarrow> ('a \<Rightarrow> string) \<Rightarrow> (nat \<times> 'a) list \<Rightarrow> (string \<times> 'a) list \<Rightarrow> bool" where
  "index_consistent ident nm byId byName \<longleftrightarrow>
     distinct (map fst byId) \<and> distinct (map fst byName) \<and>
     list_all (\<lambda>(i, x). ident x = i \<and> map_of byName (nm x) = Some x) byId \<and>
     list_all (\<lambda>(n, x). nm x = n \<and> map_of byId (ident x) = Some x) byName"

definition directory_consistent :: "state \<Rightarrow> bool" where
  "directory_consistent s \<longleftrightarrow>
     index_consistent ch_id ch_topic (channelsById s) (channelsByName s) \<and>
     index_consistent sv_id sv_name (servicesById s) (servicesByName s)"

text \<open>
  The discipline of a peer that retracts an entry before it advertises its id under
  another name or its name under another id. An advertised entry keeps the pairing of the
  directory when its id, if the id index holds it, stands there for an entry of the same
  name, and its name, if the name index holds it, stands there for an entry of the same
  id: the entry is new, or it is advertised again under its own id and name. Every channel
  or service of an advertisement is to keep the pairing when its turn in the batch comes.
\<close>

definition keeps_pairing ::
  "('a \<Rightarrow> nat) \<Rightarrow> ('a \<Rightarrow> string) \<Rightarrow> (nat \<times> 'a) list \<Rightarrow> (string \<times> 'a) list \<Rightarrow> 'a \<Rightarrow> bool" where
  "keeps_pairing ident nm byId byName x \<longleftrightarrow>
     (case map_of byId (ident x) of None \<Rightarrow> True | Some old \<Rightarrow> nm old = nm x) \<and>
     (case map_of byName (nm x) of None \<Rightarrow> True | Some old \<Rightarrow> ident old = ident x)"

fun pairing_kept_channels :: "state \<Rightarrow> Channel list \<Rightarrow> bool" where
  "pairing_kept_channels s [] = True"
| "pairing_kept_channels s (c # cs) =
     (keeps_pairing ch_id ch_topic (channelsById s) (channelsByName s) c \<and>
      pairing_kept_channels (advertise_handler s [c]) cs)"

fun pairing_kept_services :: "state \<Rightarrow> Service list \<Rightarrow> bool" where
  "pairing_kept_services s [] = True"
| "pairing_kept_services s (v # vs) =
     (keeps_pairing sv_id sv_name (servicesById s) (servicesByName s) v \<and>
      pairing_kept_services (advertiseServices_handler s [v]) vs)"

fun admissible :: "state \<Rightarrow> input \<Rightarrow> bool" where
  "admissible s (Emit (ev_advertise channels)) = pairing_kept_channels s channels"
| "admissible s (Emit (ev_advertiseServices services)) = pairing_kept_services s services"
| "admissible s i = True"

fun retracts_first :: "state \<Rightarrow> input list \<Rightarrow> bool" where
  "retracts_first s [] = True"
| "retracts_first s (i # inputs) = (admissible s i \<and> retracts_first (step s i) inputs)"

text \<open>The inputs that write to the channel indices, and those that write to the service indices.\<close>

fun writes_channels :: "input \<Rightarrow> bool" where
  "writes_channels (Emit (ev_advertise channels)) = True"
| "writes_channels (Emit (ev_unadvertise channelIds)) = True"
| "writes_channels i = False"

fun writes_services :: "input \<Rightarrow> bool" where
  "writes_services (Emit (ev_advertiseServices services)) = True"
| "writes_services (Emit (ev_unadvertiseServices serviceIds)) = True"
| "writes_services i = False"

section \<open>Example data\<close>

text \<open>
  Libraries for the examples: they compile every schema text but \<^verbatim>\<open>?\<close>, decode a payload of
  at least four bytes (an encoded ROS 2 message begins with a header of four bytes), and
  encode every value but \<^verbatim>\<open>undefined\<close>.
\<close>

definition example_library :: library where
  "example_library =
     \<lparr>new_MessageReader = (\<lambda>d. definition_text d \<noteq> ''?''),
      new_MessageWriter = (\<lambda>d. definition_text d \<noteq> ''?''),
      can_readMessage = (\<lambda>r data. 4 \<le> length data),
      can_writeMessage = (\<lambda>w v. v \<noteq> ''undefined'')\<rparr>"

definition example_channel :: Channel where
  "example_channel =
     \<lparr>ch_id = 7, ch_topic = ''/t'', ch_encoding = ''cdr'', ch_schemaName = ''pkg/Msg'',
      ch_schema = Text ''string data'', ch_schemaEncoding = Some ''ros2msg''\<rparr>"

definition example_service :: Service where
  "example_service =
     \<lparr>sv_id = 3, sv_name = ''/add'', sv_type = ''pkg/Msg'',
      sv_request = Some \<lparr>ms_encoding = ''cdr'', ms_schemaName = ''pkg/Msg_Request'',
                         ms_schemaEncoding = ''ros2msg'', ms_schema = Text ''int64 a''\<rparr>,
      sv_response = Some \<lparr>ms_encoding = ''cdr'', ms_schemaName = ''pkg/Msg_Response'',
                          ms_schemaEncoding = ''ros2msg'', ms_schema = Text ''int64 sum''\<rparr>,
      sv_requestSchema = Nullish, sv_responseSchema = Nullish\<rparr>"

definition bare_service :: Service where
  "bare_service =
     \<lparr>sv_id = 4, sv_name = ''/bare'', sv_type = ''pkg/Msg'',
      sv_request = None, sv_response = None,
      sv_requestSchema = Nullish, sv_responseSchema = Nullish\<rparr>"

definition example_args :: args where
  "example_args =
     \<lparr>a_name = ''node:use_sim_time'', a_value = ValidJSON (PBool True), a_topic = ''/t'',
      a_service = ''/add'', a_object = ''{a: 1}''\<rparr>"

text \<open>A verb object: its \<^verbatim>\<open>op\<close>, its topic or service, and its type.\<close>

definition verb :: "string \<Rightarrow> string \<Rightarrow> string \<Rightarrow> message" where
  "verb opn target ty =
     \<lparr>m_op = opn, m_id = ''call:1'', m_topic = target, m_type = ty, m_msg = ''hello'',
      m_service = target, m_args = example_args\<rparr>"

definition unschematised_channel :: Channel where
  "unschematised_channel = example_channel\<lparr>ch_schema := NotAString\<rparr>"

definition example_listener :: MessageListener where
  "example_listener =
     \<lparr>ml_subscriptionId = 0, ml_channel = unschematised_channel, ml_topic = ''/t''\<rparr>"

text \<open>A session in which one call to the example service has been sent.\<close>

definition one_call :: "input list" where
  "one_call =
     [Emit (ev_advertiseServices [example_service]), EndOfTask,
      Send (verb ''call_service'' ''/add'' ''pkg/Msg''), EndOfTask]"

definition example_response_listener :: ResponseListener where
  "example_response_listener =
     \<lparr>rl_service = example_service, rl_callId = 0,
      rl_reader = Ros2MessageReader 1 (parse ''int64 sum'' True), rl_id = ''call:1''\<rparr>"

text \<open>
  A response to that call with a payload of twelve bytes, one with a payload of one byte,
  which the reader cannot decode, and a response to another call.
\<close>

definition example_response :: ServiceCallResponse where
  "example_response =
     \<lparr>scr_serviceId = 3, scr_callId = 0, scr_data = [0, 1, 0, 0, 3, 0, 0, 0, 0, 0, 0, 0]\<rparr>"

definition undecodable_response :: ServiceCallResponse where
  "undecodable_response = \<lparr>scr_serviceId = 3, scr_callId = 0, scr_data = [9]\<rparr>"

definition other_response :: ServiceCallResponse where
  "other_response =
     \<lparr>scr_serviceId = 3, scr_callId = 5, scr_data = [0, 1, 0, 0, 3, 0, 0, 0, 0, 0, 0, 0]\<rparr>"

definition example_failure :: ServiceCallFailure where
  "example_failure = \<lparr>scf_serviceId = 3, scf_callId = 0, scf_message = ''no such service''\<rparr>"

definition example_parameters :: ParameterValues where
  "example_parameters =
     \<lparr>pv_id = Some ''call:1'',
      pv_parameters = [\<lparr>p_name = ''node.use_sim_time'', p_value = PBool True\<rparr>]\<rparr>"

text \<open>
  The example channel once more under another id, under another name, and under its own id
  and name with another schema.
\<close>

definition same_name_new_id :: Channel where
  "same_name_new_id = example_channel\<lparr>ch_id := 8\<rparr>"

definition same_id_new_name :: Channel where
  "same_id_new_name = example_channel\<lparr>ch_topic := ''/u''\<rparr>"

definition same_id_and_name :: Channel where
  "same_id_and_name = example_channel\<lparr>ch_schema := Text ''string label''\<rparr>"

text \<open>A service whose request schema the libraries do not compile.\<close>

definition uncompilable_service :: Service where
  "uncompilable_service =
     \<lparr>sv_id = 5, sv_name = ''/odd'', sv_type = ''pkg/Odd'',
      sv_request = None, sv_response = None,
      sv_requestSchema = Text ''?'', sv_responseSchema = Text ''int64 sum''\<rparr>"

section \<open>Properties of the codec caches\<close>

lemma getMessageReader_cached:
  "map_of (messageReaders s) (codec_name d) = Some r \<Longrightarrow> getMessageReader s d = (Inr r, s)"
  by (simp add: getMessageReader_def codec_name_def)

lemma getMessageWriter_cached:
  "map_of (messageWriters s) (codec_name d) = Some w \<Longrightarrow> getMessageWriter s d = (Inr w, s)"
  by (simp add: getMessageWriter_def codec_name_def)

lemma getMessageReader_Inr:
  "getMessageReader s d = (Inr r, s1) \<Longrightarrow> map_of (messageReaders s1) (codec_name d) = Some r"
  by (auto simp: getMessageReader_def codec_name_def Let_def update_conv'
      split: option.splits jsstring.splits if_splits)

lemma getMessageWriter_Inr:
  "getMessageWriter s d = (Inr w, s1) \<Longrightarrow> map_of (messageWriters s1) (codec_name d) = Some w"
  by (auto simp: getMessageWriter_def codec_name_def Let_def update_conv'
      split: option.splits jsstring.splits if_splits)

lemma getMessageReader_missing:
  "map_of (messageReaders s) (codec_name d) = None \<Longrightarrow> \<not> is_text (reader_schema d) \<Longrightarrow>
   getMessageReader s d = (Inl SchemaNotFound, s\<lparr>trace := trace s @ [console_log d]\<rparr>)"
  by (auto simp: getMessageReader_def codec_name_def reader_schema_def is_text_def Let_def
      split: jsstring.splits ChannelOrService.splits)

lemma getMessageWriter_missing:
  "map_of (messageWriters s) (codec_name d) = None \<Longrightarrow> \<not> is_text (writer_schema d) \<Longrightarrow>
   getMessageWriter s d = (Inl SchemaNotFound, s)"
  by (auto simp: getMessageWriter_def codec_name_def writer_schema_def is_text_def Let_def
      split: jsstring.splits ChannelOrService.splits)

lemma getMessageReader_compiles:
  "map_of (messageReaders s) (codec_name d) = None \<Longrightarrow> reader_schema d = Text txt \<Longrightarrow>
   fst (getMessageReader s d) \<noteq> Inl LibraryError \<Longrightarrow>
   \<exists>r. getMessageReader s d =
          (Inr r, s\<lparr>constructed := Suc (constructed s),
                    messageReaders := AList.update (codec_name d) r (messageReaders s)\<rparr>) \<and>
       reader_text r = txt"
  by (auto simp: getMessageReader_def codec_name_def reader_schema_def Let_def
      split: ChannelOrService.splits if_splits)

lemma getMessageWriter_compiles:
  "map_of (messageWriters s) (codec_name d) = None \<Longrightarrow> writer_schema d = Text txt \<Longrightarrow>
   fst (getMessageWriter s d) \<noteq> Inl LibraryError \<Longrightarrow>
   \<exists>w. getMessageWriter s d =
          (Inr w, s\<lparr>constructed := Suc (constructed s),
                    messageWriters := AList.update (codec_name d) w (messageWriters s)\<rparr>) \<and>
       writer_text w = txt"
  by (auto simp: getMessageWriter_def codec_name_def writer_schema_def Let_def
      split: ChannelOrService.splits if_splits)

section \<open>What each operation leaves alone\<close>

lemma call_ids_append [simp]: "call_ids (xs @ ys) = call_ids xs @ call_ids ys"
  by (induction xs rule: call_ids.induct) simp_all

lemma getChannel_views [simp]:
  "caches (getChannel s n k) = caches s"
  "directory (getChannel s n k) = directory s"
  "calls (getChannel s n k) = calls s"
  "schema_errors (getChannel s n k) = schema_errors s"
  "setting (getChannel s n k) = setting s"
  by (simp_all add: caches_def directory_def calls_def schema_errors_def setting_def
      getChannel_def
      split: option.splits)

lemma getService_views [simp]:
  "caches (getService s n k) = caches s"
  "directory (getService s n k) = directory s"
  "calls (getService s n k) = calls s"
  "schema_errors (getService s n k) = schema_errors s"
  "setting (getService s n k) = setting s"
  by (simp_all add: caches_def directory_def calls_def schema_errors_def setting_def
      getService_def
      split: option.splits)

lemma getChannel_listener_views [simp]:
  "caches (getChannel_listener cs s l) = caches s"
  "directory (getChannel_listener cs s l) = directory s"
  "calls (getChannel_listener cs s l) = calls s"
  "schema_errors (getChannel_listener cs s l) = schema_errors s"
  "setting (getChannel_listener cs s l) = setting s"
  by (simp_all add: caches_def directory_def calls_def schema_errors_def setting_def
      getChannel_listener_def
      split: option.splits)

lemma getService_listener_views [simp]:
  "caches (getService_listener vs s l) = caches s"
  "directory (getService_listener vs s l) = directory s"
  "calls (getService_listener vs s l) = calls s"
  "schema_errors (getService_listener vs s l) = schema_errors s"
  "setting (getService_listener vs s l) = setting s"
  by (simp_all add: caches_def directory_def calls_def schema_errors_def setting_def
      getService_listener_def
      split: option.splits)

lemma unadvertise_views [simp]:
  "caches (unadvertise s m) = caches s"
  "directory (unadvertise s m) = directory s"
  "calls (unadvertise s m) = calls s"
  "schema_errors (unadvertise s m) = schema_errors s"
  "setting (unadvertise s m) = setting s"
  by (simp_all add: caches_def directory_def calls_def schema_errors_def setting_def
      unadvertise_def Let_def
      split: option.splits)

lemma publish_views [simp]:
  "caches (publish s m) = caches s"
  "directory (publish s m) = directory s"
  "calls (publish s m) = calls s"
  "schema_errors (publish s m) = schema_errors s"
  "setting (publish s m) = setting s"
  by (simp_all add: caches_def directory_def calls_def schema_errors_def setting_def
      publish_def
      split: option.splits promise.splits)

lemma resolve_views [simp]:
  "caches (resolve s p f) = caches s"
  "directory (resolve s p f) = directory s"
  "calls (resolve s p f) = calls s"
  "schema_errors (resolve s p f) = schema_errors s"
  "setting (resolve s p f) = setting s"
  by (simp_all add: caches_def directory_def calls_def schema_errors_def setting_def
      resolve_def
      split: option.splits promise.splits)

lemma subscribe_resumed_views [simp]:
  "caches (subscribe_resumed s m c) = caches s"
  "directory (subscribe_resumed s m c) = directory s"
  "calls (subscribe_resumed s m c) = calls s"
  "schema_errors (subscribe_resumed s m c) = schema_errors s"
  "setting (subscribe_resumed s m c) = setting s"
  by (simp_all add: caches_def directory_def calls_def schema_errors_def setting_def
      subscribe_resumed_def Let_def)

lemma unsubscribe_views [simp]:
  "caches (unsubscribe s m) = caches s"
  "directory (unsubscribe s m) = directory s"
  "calls (unsubscribe s m) = calls s"
  "schema_errors (unsubscribe s m) = schema_errors s"
  "setting (unsubscribe s m) = setting s"
  by (simp_all add: caches_def directory_def calls_def schema_errors_def setting_def
      unsubscribe_def Let_def
      split: option.splits)

lemma getParam_views [simp]:
  "caches (getParam s m) = caches s"
  "directory (getParam s m) = directory s"
  "calls (getParam s m) = calls s"
  "schema_errors (getParam s m) = schema_errors s"
  "setting (getParam s m) = setting s"
  by (simp_all add: caches_def directory_def calls_def schema_errors_def setting_def
      getParam_def Let_def)

lemma setParam_views [simp]:
  "caches (snd (setParam s m)) = caches s"
  "directory (snd (setParam s m)) = directory s"
  "calls (snd (setParam s m)) = calls s"
  "schema_errors (snd (setParam s m)) = schema_errors s"
  "setting (snd (setParam s m)) = setting s"
  by (simp_all add: caches_def directory_def calls_def schema_errors_def setting_def
      setParam_def Let_def
      split: json_text.splits)

lemma getTopics_views [simp]:
  "caches (getTopics s m) = caches s"
  "directory (getTopics s m) = directory s"
  "calls (getTopics s m) = calls s"
  "schema_errors (getTopics s m) = schema_errors s"
  "setting (getTopics s m) = setting s"
  by (simp_all add: caches_def directory_def calls_def schema_errors_def setting_def
      getTopics_def)

lemma getServices_views [simp]:
  "caches (getServices s m) = caches s"
  "directory (getServices s m) = directory s"
  "calls (getServices s m) = calls s"
  "schema_errors (getServices s m) = schema_errors s"
  "setting (getServices s m) = setting s"
  by (simp_all add: caches_def directory_def calls_def schema_errors_def setting_def
      getServices_def)

lemma getTopicType_views [simp]:
  "caches (getTopicType s m) = caches s"
  "directory (getTopicType s m) = directory s"
  "calls (getTopicType s m) = calls s"
  "schema_errors (getTopicType s m) = schema_errors s"
  "setting (getTopicType s m) = setting s"
  by (simp_all add: caches_def directory_def calls_def schema_errors_def setting_def
      getTopicType_def
      split: option.splits)

lemma getServiceType_views [simp]:
  "caches (getServiceType s m) = caches s"
  "directory (getServiceType s m) = directory s"
  "calls (getServiceType s m) = calls s"
  "schema_errors (getServiceType s m) = schema_errors s"
  "setting (getServiceType s m) = setting s"
  by (simp_all add: caches_def directory_def calls_def schema_errors_def setting_def
      getServiceType_def
      split: option.splits)

lemma close_views [simp]:
  "caches (close s) = caches s"
  "directory (close s) = directory s"
  "calls (close s) = calls s"
  "schema_errors (close s) = schema_errors s"
  "setting (close s) = setting s"
  by (simp_all add: caches_def directory_def calls_def schema_errors_def setting_def
      close_def)

lemma parameterValues_listener_views [simp]:
  "caches (parameterValues_listener e s l) = caches s"
  "directory (parameterValues_listener e s l) = directory s"
  "calls (parameterValues_listener e s l) = calls s"
  "schema_errors (parameterValues_listener e s l) = schema_errors s"
  "setting (parameterValues_listener e s l) = setting s"
  by (cases l; simp add: caches_def directory_def calls_def schema_errors_def setting_def)+

lemma connectionGraphUpdate_listener_views [simp]:
  "caches (connectionGraphUpdate_listener e s l) = caches s"
  "directory (connectionGraphUpdate_listener e s l) = directory s"
  "calls (connectionGraphUpdate_listener e s l) = calls s"
  "schema_errors (connectionGraphUpdate_listener e s l) = schema_errors s"
  "setting (connectionGraphUpdate_listener e s l) = setting s"
  by (simp_all add: caches_def directory_def calls_def schema_errors_def setting_def
      connectionGraphUpdate_listener_def)

lemma foldl_view:
  assumes "\<And>s x. view (f s x) = view s"
  shows "view (foldl f s xs) = view s"
  by (induction xs arbitrary: s) (simp_all add: assms)

lemma advertise_views [simp]:
  "caches (advertise s m) = caches s"
  "directory (advertise s m) = directory s"
  "calls (advertise s m) = calls s"
  "schema_errors (advertise s m) = schema_errors s"
  "setting (advertise s m) = setting s"
  proof -
  let ?s2 = "s\<lparr>nextPublisherId := Suc (nextPublisherId s),
               trace := trace s @ [client_advertise (m_topic m)
                                     (if isRos2 s then ''cdr'' else ''ros1'') (m_type m)],
               nextPromise := Suc (nextPromise s),
               promises := AList.update (nextPromise s) (Pending []) (promises s)\<rparr>"
  define s3 where "s3 = getChannel ?s2 (m_topic m) (advertise_then (nextPublisherId s) (nextPromise s))"
  have a: "advertise s m =
             s3\<lparr>unadvertiseByName := AList.update (m_topic m) (nextPublisherId s) (unadvertiseByName s3),
                publishByName := AList.update (m_topic m) (nextPromise s) (publishByName s3)\<rparr>"
    by (simp add: advertise_def Let_def s3_def)
  have "caches s3 = caches s" "directory s3 = directory s" "calls s3 = calls s"
       "schema_errors s3 = schema_errors s" "setting s3 = setting s"
    unfolding s3_def getChannel_views
    by (simp_all add: caches_def directory_def calls_def schema_errors_def setting_def)
  then show "caches (advertise s m) = caches s" "directory (advertise s m) = directory s"
       "calls (advertise s m) = calls s" "schema_errors (advertise s m) = schema_errors s"
       "setting (advertise s m) = setting s"
    unfolding a by (simp_all add: caches_def directory_def calls_def schema_errors_def setting_def)
qed

lemma subscribe_views [simp]:
  "caches (subscribe s m) = caches s"
  "directory (subscribe s m) = directory s"
  "calls (subscribe s m) = calls s"
  "schema_errors (subscribe s m) = schema_errors s"
  "setting (subscribe s m) = setting s"
  by (simp_all add: subscribe_def)

lemma advertise_handler_views [simp]:
  "caches (advertise_handler s cs) = caches s"
  "calls (advertise_handler s cs) = calls s"
  "schema_errors (advertise_handler s cs) = schema_errors s"
  "setting (advertise_handler s cs) = setting s"
  unfolding advertise_handler_def
  by (rule foldl_view, simp add: caches_def calls_def schema_errors_def setting_def)+

lemma unadvertise_handler_views [simp]:
  "caches (unadvertise_handler s cs) = caches s"
  "calls (unadvertise_handler s cs) = calls s"
  "schema_errors (unadvertise_handler s cs) = schema_errors s"
  "setting (unadvertise_handler s cs) = setting s"
  unfolding unadvertise_handler_def
  by (rule foldl_view, simp add: caches_def calls_def schema_errors_def setting_def split: option.splits)+

lemma advertiseServices_handler_views [simp]:
  "caches (advertiseServices_handler s cs) = caches s"
  "calls (advertiseServices_handler s cs) = calls s"
  "schema_errors (advertiseServices_handler s cs) = schema_errors s"
  "setting (advertiseServices_handler s cs) = setting s"
  unfolding advertiseServices_handler_def
  by (rule foldl_view, simp add: caches_def calls_def schema_errors_def setting_def)+

lemma unadvertiseServices_handler_views [simp]:
  "caches (unadvertiseServices_handler s cs) = caches s"
  "calls (unadvertiseServices_handler s cs) = calls s"
  "schema_errors (unadvertiseServices_handler s cs) = schema_errors s"
  "setting (unadvertiseServices_handler s cs) = setting s"
  unfolding unadvertiseServices_handler_def
  by (rule foldl_view, simp add: caches_def calls_def schema_errors_def setting_def split: option.splits)+

lemma getMessageReader_views [simp]:
  "directory (snd (getMessageReader s d)) = directory s"
  "calls (snd (getMessageReader s d)) = calls s"
  "schema_errors (snd (getMessageReader s d)) = schema_errors s"
  "setting (snd (getMessageReader s d)) = setting s"
  by (simp_all add: caches_def directory_def calls_def schema_errors_def setting_def
      getMessageReader_def Let_def
      split: option.splits jsstring.splits)

lemma getMessageWriter_views [simp]:
  "directory (snd (getMessageWriter s d)) = directory s"
  "calls (snd (getMessageWriter s d)) = calls s"
  "schema_errors (snd (getMessageWriter s d)) = schema_errors s"
  "setting (snd (getMessageWriter s d)) = setting s"
  by (simp_all add: caches_def directory_def calls_def schema_errors_def setting_def
      getMessageWriter_def Let_def
      split: option.splits jsstring.splits)

lemma serviceCallResponse_listener_views [simp]:
  "caches (snd (serviceCallResponse_listener e s l)) = caches s"
  "directory (snd (serviceCallResponse_listener e s l)) = directory s"
  "schema_errors (snd (serviceCallResponse_listener e s l)) = schema_errors s"
  "setting (snd (serviceCallResponse_listener e s l)) = setting s"
  by (simp_all add: caches_def directory_def calls_def schema_errors_def setting_def
      serviceCallResponse_listener_def Let_def)

lemma serviceCallFailure_listener_views [simp]:
  "caches (serviceCallFailure_listener e s l) = caches s"
  "directory (serviceCallFailure_listener e s l) = directory s"
  "schema_errors (serviceCallFailure_listener e s l) = schema_errors s"
  "setting (serviceCallFailure_listener e s l) = setting s"
  by (simp_all add: caches_def directory_def calls_def schema_errors_def setting_def
      serviceCallFailure_listener_def)

lemma setParam_thrown:
  "fst (setParam s m) = None \<or> fst (setParam s m) = Some SyntaxError"
  by (simp add: setParam_def Let_def split: json_text.splits)

lemma callService_builtin_views [simp]:
  "caches (snd (callService_builtin s m)) = caches s"
  "directory (snd (callService_builtin s m)) = directory s"
  "calls (snd (callService_builtin s m)) = calls s"
  "schema_errors (snd (callService_builtin s m)) = schema_errors s"
  "setting (snd (callService_builtin s m)) = setting s"
  by (simp_all add: callService_builtin_def)
     (simp_all add: caches_def directory_def calls_def schema_errors_def setting_def)

lemma callService_builtin_thrown:
  "fst (callService_builtin s m) = None \<or> fst (callService_builtin s m) = Some SyntaxError"
  using setParam_thrown [of s m] by (simp add: callService_builtin_def)

lemma callService_views [simp]:
  "caches (callService s m) = caches s"
  "directory (callService s m) = directory s"
  "calls (callService s m) = calls s"
  "schema_errors (callService s m) = schema_errors s"
  "setting (callService s m) = setting s"
proof -
  obtain thrown s1 where b: "callService_builtin s m = (thrown, s1)"
    by (cases "callService_builtin s m")
  have s1: "s1 = snd (callService_builtin s m)" and th: "thrown = None \<or> thrown = Some SyntaxError"
    using b callService_builtin_thrown [of s m] by simp_all
  have v: "caches s1 = caches s" "directory s1 = directory s" "calls s1 = calls s"
       "schema_errors s1 = schema_errors s" "setting s1 = setting s"
    unfolding s1 by simp_all
  have r: "caches (s1\<lparr>trace := trace s1 @ [unhandled_rejection SyntaxError]\<rparr>) = caches s1"
      "directory (s1\<lparr>trace := trace s1 @ [unhandled_rejection SyntaxError]\<rparr>) = directory s1"
      "calls (s1\<lparr>trace := trace s1 @ [unhandled_rejection SyntaxError]\<rparr>) = calls s1"
      "schema_errors (s1\<lparr>trace := trace s1 @ [unhandled_rejection SyntaxError]\<rparr>) = schema_errors s1"
      "setting (s1\<lparr>trace := trace s1 @ [unhandled_rejection SyntaxError]\<rparr>) = setting s1"
    by (simp_all add: caches_def directory_def calls_def schema_errors_def setting_def)
  show "caches (callService s m) = caches s" "directory (callService s m) = directory s"
       "calls (callService s m) = calls s" "schema_errors (callService s m) = schema_errors s"
       "setting (callService s m) = setting s"
    using th v r by (auto simp: callService_def b)
qed

lemma send_views [simp]:
  "caches (send s m) = caches s"
  "directory (send s m) = directory s"
  "calls (send s m) = calls s"
  "schema_errors (send s m) = schema_errors s"
  "setting (send s m) = setting s"
  by (simp_all add: send_def)
     (simp_all add: caches_def directory_def calls_def schema_errors_def setting_def)

section \<open>The microtask queue is emptied\<close>

lemma codec_microtasks:
  "microtasks (snd (getMessageWriter s d)) = microtasks s"
  "microtasks (snd (getMessageReader s d)) = microtasks s"
  by (simp_all add: getMessageWriter_def getMessageReader_def Let_def
      split: option.splits jsstring.splits)

lemma callService_resumed_microtasks:
  "microtasks (callService_resumed s m v) = microtasks s"
proof -
  obtain x s1 where w: "getMessageWriter s (IsService v) = (x, s1)"
    by (cases "getMessageWriter s (IsService v)")
  obtain y s2 where r: "getMessageReader s1 (IsService v) = (y, s2)"
    by (cases "getMessageReader s1 (IsService v)")
  have q: "microtasks s1 = microtasks s" "microtasks s2 = microtasks s1"
    using codec_microtasks(1) [of s "IsService v"] codec_microtasks(2) [of s1 "IsService v"] w r
    by simp_all
  show ?thesis
    using q by (cases x; cases y) (simp_all add: callService_resumed_def w r Let_def)
qed

lemma run_microtask_spawns:
  "\<exists>ps. microtasks (run_microtask s t) = microtasks s @ ps \<and> list_all is_publish ps"
proof (cases t)
  case (channel_resolved k c)
  show ?thesis
  proof (cases k)
    case (advertise_then publisherId p)
    obtain x s1 where w: "getMessageWriter s (IsChannel c) = (x, s1)"
      by (cases "getMessageWriter s (IsChannel c)")
    have q: "microtasks s1 = microtasks s"
      using codec_microtasks(1) [of s "IsChannel c"] w by simp
    show ?thesis
    proof (cases x)
      case (Inl e)
      then show ?thesis using q by (simp add: channel_resolved advertise_then w)
    next
      case (Inr wr)
      then show ?thesis
        using q
        by (auto simp: channel_resolved advertise_then w resolve_def list_all_iff
            split: option.splits promise.splits)
    qed
  next
    case (subscribe_await m)
    then show ?thesis by (simp add: channel_resolved subscribe_resumed_def Let_def)
  qed
next
  case (service_resolved m v)
  then show ?thesis by (simp add: callService_resumed_microtasks)
next
  case (publish_resolved f msg)
  then show ?thesis by (cases f) auto
qed

lemma publish_spawns_nothing:
  "is_publish t \<Longrightarrow> microtasks (run_microtask s t) = microtasks s"
  by (cases t; cases "case t of publish_resolved f msg \<Rightarrow> f") auto

lemma foldl_spawns:
  "\<exists>ps. microtasks (foldl run_microtask s ts) = microtasks s @ ps \<and> list_all is_publish ps"
proof (induction ts arbitrary: s)
  case Nil
  then show ?case by simp
next
  case (Cons t ts)
  obtain ps where p: "microtasks (run_microtask s t) = microtasks s @ ps" "list_all is_publish ps"
    using run_microtask_spawns [of s t] by blast
  obtain qs where q: "microtasks (foldl run_microtask (run_microtask s t) ts) =
      microtasks (run_microtask s t) @ qs" "list_all is_publish qs"
    using Cons.IH [of "run_microtask s t"] by blast
  have "microtasks (foldl run_microtask s (t # ts)) = microtasks s @ (ps @ qs)"
    using p(1) q(1) by simp
  moreover have "list_all is_publish (ps @ qs)" using p(2) q(2) by simp
  ultimately show ?case by blast
qed

lemma foldl_publish_only:
  "list_all is_publish ts \<Longrightarrow> microtasks (foldl run_microtask s ts) = microtasks s"
  by (induction ts arbitrary: s) (simp_all add: publish_spawns_nothing)

lemma run_microtasks_empties_queue: "microtasks (run_microtasks s) = []"
proof -
  obtain ps where p: "microtasks (run_queued s) = ps" "list_all is_publish ps"
    using foldl_spawns [of "s\<lparr>microtasks := []\<rparr>" "microtasks s"] by (auto simp: run_queued_def)
  have "microtasks (run_queued (run_queued s)) =
          microtasks ((run_queued s)\<lparr>microtasks := []\<rparr>)"
    unfolding run_queued_def [of "run_queued s"] p(1)
    using p(2) by (rule foldl_publish_only)
  then show ?thesis by (simp add: run_microtasks_def)
qed

section \<open>Schema errors\<close>

lemma callService_resumed_no_writer:
  assumes "map_of (messageWriters s) (codec_name (IsService v)) = None"
      and "\<not> is_text (writer_schema (IsService v))"
  shows "callService_resumed s m v = s\<lparr>trace := trace s @ [unhandled_rejection SchemaNotFound]\<rparr>"
  by (simp add: callService_resumed_def getMessageWriter_missing [OF assms])

lemma service_resolved_no_writer:
  assumes "map_of (messageWriters s) (codec_name (IsService v)) = None"
      and "\<not> is_text (writer_schema (IsService v))"
  shows "run_microtask s (service_resolved m v) =
           s\<lparr>trace := trace s @ [unhandled_rejection SchemaNotFound]\<rparr>"
  by (simp add: callService_resumed_no_writer [OF assms])

lemma advertise_then_no_writer:
  assumes "map_of (messageWriters s) (codec_name (IsChannel c)) = None"
      and "\<not> is_text (writer_schema (IsChannel c))"
  shows "run_microtask s (channel_resolved (advertise_then publisherId p) c) =
           s\<lparr>trace := trace s @ [unhandled_rejection SchemaNotFound]\<rparr>"
  by (simp add: getMessageWriter_missing [OF assms])

lemma message_listener_no_reader:
  assumes "map_of (messageReaders s) (codec_name (IsChannel (ml_channel l))) = None"
      and "\<not> is_text (reader_schema (IsChannel (ml_channel l)))"
      and "md_subscriptionId e = ml_subscriptionId l"
  shows "emit_message s e (l # ls) =
           s\<lparr>trace := trace s @ [console_log (IsChannel (ml_channel l)), uncaught SchemaNotFound]\<rparr>"
  by (simp add: message_listener_def assms(3) getMessageReader_missing [OF assms(1,2)])

text \<open>
  C7, as the code has it. When no codec is cached under the descriptor's name and the
  resolved schema is not a string, \<^verbatim>\<open>#getMessageReader\<close> and \<^verbatim>\<open>#getMessageWriter\<close> throw
  \<^verbatim>\<open>schema not found\<close> and add nothing to either cache. The error goes to the code of
  the bridge that asked for the codec, never to the caller of the verb: \<^verbatim>\<open>send\<close> compiles
  nothing and raises no schema error. The error surfaces later, as the rejected promise
  of \<^verbatim>\<open>#callService\<close> or of the \<^verbatim>\<open>then\<close> callback of \<^verbatim>\<open>#advertise\<close>, or as an exception in
  the message listener of \<^verbatim>\<open>#subscribe\<close> while the transport dispatches a message.
\<close>

theorem schema_missing_thrown_inside_bridge:
  "(map_of (messageReaders s) (codec_name d) = None \<and> \<not> is_text (reader_schema d) \<longrightarrow>
      fst (getMessageReader s d) = Inl SchemaNotFound \<and>
      messageReaders (snd (getMessageReader s d)) = messageReaders s \<and>
      messageWriters (snd (getMessageReader s d)) = messageWriters s) \<and>
   (map_of (messageWriters s) (codec_name d) = None \<and> \<not> is_text (writer_schema d) \<longrightarrow>
      fst (getMessageWriter s d) = Inl SchemaNotFound \<and>
      messageReaders (snd (getMessageWriter s d)) = messageReaders s \<and>
      messageWriters (snd (getMessageWriter s d)) = messageWriters s) \<and>
   messageReaders (send s m) = messageReaders s \<and>
   messageWriters (send s m) = messageWriters s \<and>
   schema_errors (send s m) = schema_errors s \<and>
   (map_of (messageWriters s) (codec_name (IsService v)) = None \<and>
    \<not> is_text (writer_schema (IsService v)) \<longrightarrow>
      run_microtask s (service_resolved m v) =
        s\<lparr>trace := trace s @ [unhandled_rejection SchemaNotFound]\<rparr>) \<and>
   (map_of (messageWriters s) (codec_name (IsChannel c)) = None \<and>
    \<not> is_text (writer_schema (IsChannel c)) \<longrightarrow>
      run_microtask s (channel_resolved (advertise_then publisherId p) c) =
        s\<lparr>trace := trace s @ [unhandled_rejection SchemaNotFound]\<rparr>) \<and>
   (map_of (messageReaders s) (codec_name (IsChannel (ml_channel l))) = None \<and>
    \<not> is_text (reader_schema (IsChannel (ml_channel l))) \<and>
    md_subscriptionId e = ml_subscriptionId l \<longrightarrow>
      emit_message s e (l # ls) =
        s\<lparr>trace := trace s @ [console_log (IsChannel (ml_channel l)), uncaught SchemaNotFound]\<rparr>)"
proof -
  have c: "messageReaders (send s m) = messageReaders s \<and> messageWriters (send s m) = messageWriters s"
    using send_views(1) [of s m] by (simp add: caches_def)
  show ?thesis
    using c
    by (auto simp: getMessageReader_missing getMessageWriter_missing service_resolved_no_writer
        advertise_then_no_writer message_listener_no_reader
        simp del: run_microtask.simps emit_message.simps)
qed

theorem schema_missing_thrown_inside_bridge_witness:
  "map_of (messageReaders (FoxgloveSocket example_library True)) (codec_name (IsService bare_service)) = None \<and>
   \<not> is_text (reader_schema (IsService bare_service)) \<and>
   map_of (messageWriters (FoxgloveSocket example_library True)) (codec_name (IsService bare_service)) = None \<and>
   \<not> is_text (writer_schema (IsService bare_service)) \<and>
   map_of (messageWriters (FoxgloveSocket example_library True)) (codec_name (IsChannel unschematised_channel)) = None \<and>
   \<not> is_text (writer_schema (IsChannel unschematised_channel)) \<and>
   map_of (messageReaders (FoxgloveSocket example_library True))
     (codec_name (IsChannel (ml_channel example_listener))) = None \<and>
   \<not> is_text (reader_schema (IsChannel (ml_channel example_listener))) \<and>
   md_subscriptionId \<lparr>md_subscriptionId = 0, md_data = []\<rparr> = ml_subscriptionId example_listener \<and>
   fst (getMessageReader (FoxgloveSocket example_library True) (IsService bare_service)) = Inl SchemaNotFound \<and>
   messageReaders (snd (getMessageReader (FoxgloveSocket example_library True) (IsService bare_service))) =
     messageReaders (FoxgloveSocket example_library True) \<and>
   fst (getMessageWriter (FoxgloveSocket example_library True) (IsService bare_service)) = Inl SchemaNotFound \<and>
   messageWriters (snd (getMessageWriter (FoxgloveSocket example_library True) (IsService bare_service))) =
     messageWriters (FoxgloveSocket example_library True) \<and>
   schema_errors (send (FoxgloveSocket example_library True) (verb ''call_service'' ''/bare'' ''pkg/Msg'')) =
     schema_errors (FoxgloveSocket example_library True) \<and>
   run_microtask (FoxgloveSocket example_library True)
       (service_resolved (verb ''call_service'' ''/bare'' ''pkg/Msg'') bare_service) =
     (FoxgloveSocket example_library True)
       \<lparr>trace := trace (FoxgloveSocket example_library True) @ [unhandled_rejection SchemaNotFound]\<rparr> \<and>
   run_microtask (FoxgloveSocket example_library True)
       (channel_resolved (advertise_then 0 0) unschematised_channel) =
     (FoxgloveSocket example_library True)
       \<lparr>trace := trace (FoxgloveSocket example_library True) @ [unhandled_rejection SchemaNotFound]\<rparr> \<and>
   emit_message (FoxgloveSocket example_library True) \<lparr>md_subscriptionId = 0, md_data = []\<rparr> [example_listener] =
     (FoxgloveSocket example_library True)
       \<lparr>trace := trace (FoxgloveSocket example_library True) @
          [console_log (IsChannel (ml_channel example_listener)), uncaught SchemaNotFound]\<rparr>"
proof -
  have h:
    "map_of (messageReaders (FoxgloveSocket example_library True)) (codec_name (IsService bare_service)) = None"
    "\<not> is_text (reader_schema (IsService bare_service))"
    "map_of (messageWriters (FoxgloveSocket example_library True)) (codec_name (IsService bare_service)) = None"
    "\<not> is_text (writer_schema (IsService bare_service))"
    "map_of (messageWriters (FoxgloveSocket example_library True)) (codec_name (IsChannel unschematised_channel)) = None"
    "\<not> is_text (writer_schema (IsChannel unschematised_channel))"
    "map_of (messageReaders (FoxgloveSocket example_library True))
       (codec_name (IsChannel (ml_channel example_listener))) = None"
    "\<not> is_text (reader_schema (IsChannel (ml_channel example_listener)))"
    "md_subscriptionId \<lparr>md_subscriptionId = 0, md_data = []\<rparr> = ml_subscriptionId example_listener"
    by (simp_all add: FoxgloveSocket_def codec_name_def reader_schema_def writer_schema_def
        is_text_def bare_service_def unschematised_channel_def example_channel_def
        example_listener_def nullish_coalescing_def)
  show ?thesis
    using h
      schema_missing_thrown_inside_bridge
        [of "FoxgloveSocket example_library True" "IsService bare_service"
            "verb ''call_service'' ''/bare'' ''pkg/Msg''" bare_service unschematised_channel 0 0
            example_listener "\<lparr>md_subscriptionId = 0, md_data = []\<rparr>" "[]"]
    by blast
qed

text \<open>
  C7 as stated fails twice. A call_service for a service advertised without schemas
  returns from \<^verbatim>\<open>send\<close> with nothing thrown and nothing done; the error appears only when
  the microtasks run, as a rejected promise. And a descriptor without schema text whose
  name is already cached gets the cached codec instead of an error.
\<close>

theorem schema_missing_not_thrown_to_caller:
  "\<not> is_text (writer_schema (IsService bare_service)) \<and>
   \<not> is_text (reader_schema (IsService bare_service)) \<and>
   trace (send (emit (FoxgloveSocket example_library True) (ev_advertiseServices [bare_service]))
            (verb ''call_service'' ''/bare'' ''pkg/Msg'')) = [] \<and>
   trace (run_microtasks
            (send (emit (FoxgloveSocket example_library True) (ev_advertiseServices [bare_service]))
               (verb ''call_service'' ''/bare'' ''pkg/Msg''))) =
     [unhandled_rejection SchemaNotFound] \<and>
   fst (getMessageReader
          (snd (getMessageReader (FoxgloveSocket example_library True) (IsChannel example_channel)))
          (IsService bare_service)) =
     Inr (Ros2MessageReader 0 (parse ''string data'' True))"
  by code_simp

section \<open>One cache key for channels and services\<close>

lemma reader_served_twice:
  assumes "codec_name d2 = codec_name d1"
      and "map_of (messageReaders s) (codec_name d1) = None"
      and "reader_schema d1 = Text txt"
      and "fst (getMessageReader s d1) \<noteq> Inl LibraryError"
  shows "\<exists>r s1. getMessageReader s d1 = (Inr r, s1) \<and> getMessageReader s1 d2 = (Inr r, s1) \<and>
                reader_text r = txt"
proof -
  obtain r where r: "getMessageReader s d1 =
      (Inr r, s\<lparr>constructed := Suc (constructed s),
                messageReaders := AList.update (codec_name d1) r (messageReaders s)\<rparr>)"
      "reader_text r = txt"
    using getMessageReader_compiles [OF assms(2,3,4)] by blast
  have "getMessageReader (s\<lparr>constructed := Suc (constructed s),
                messageReaders := AList.update (codec_name d1) r (messageReaders s)\<rparr>) d2 =
        (Inr r, s\<lparr>constructed := Suc (constructed s),
                messageReaders := AList.update (codec_name d1) r (messageReaders s)\<rparr>)"
    by (rule getMessageReader_cached) (simp add: assms(1) update_conv')
  with r show ?thesis by blast
qed

lemma writer_served_twice:
  assumes "codec_name d2 = codec_name d1"
      and "map_of (messageWriters s) (codec_name d1) = None"
      and "writer_schema d1 = Text txt"
      and "fst (getMessageWriter s d1) \<noteq> Inl LibraryError"
  shows "\<exists>w s1. getMessageWriter s d1 = (Inr w, s1) \<and> getMessageWriter s1 d2 = (Inr w, s1) \<and>
                writer_text w = txt"
proof -
  obtain w where w: "getMessageWriter s d1 =
      (Inr w, s\<lparr>constructed := Suc (constructed s),
                messageWriters := AList.update (codec_name d1) w (messageWriters s)\<rparr>)"
      "writer_text w = txt"
    using getMessageWriter_compiles [OF assms(2,3,4)] by blast
  have "getMessageWriter (s\<lparr>constructed := Suc (constructed s),
                messageWriters := AList.update (codec_name d1) w (messageWriters s)\<rparr>) d2 =
        (Inr w, s\<lparr>constructed := Suc (constructed s),
                messageWriters := AList.update (codec_name d1) w (messageWriters s)\<rparr>)"
    by (rule getMessageWriter_cached) (simp add: assms(1) update_conv')
  with w show ?thesis by blast
qed

text \<open>
  C9. A channel is filed in the caches under its \<^verbatim>\<open>schemaName\<close> and a service under its
  \<^verbatim>\<open>type\<close>. When the two names are equal and nothing is cached under them yet, the
  descriptor asked for first is compiled, unless the library throws on its schema text,
  and its codec is what the other descriptor gets afterwards: the service's reader and
  writer are the ones compiled from the channel's schema text, and the other way round
  when the service comes first.
\<close>

theorem codec_shared_by_channel_and_service:
  assumes "ch_schemaName c = sv_type v"
      and "map_of (messageReaders s) (sv_type v) = None"
      and "map_of (messageWriters s) (sv_type v) = None"
  shows "(ch_schema c = Text txt \<and> fst (getMessageReader s (IsChannel c)) \<noteq> Inl LibraryError \<longrightarrow>
            (\<exists>r s1. getMessageReader s (IsChannel c) = (Inr r, s1) \<and>
                     getMessageReader s1 (IsService v) = (Inr r, s1) \<and> reader_text r = txt)) \<and>
         (ch_schema c = Text txt \<and> fst (getMessageWriter s (IsChannel c)) \<noteq> Inl LibraryError \<longrightarrow>
            (\<exists>w s1. getMessageWriter s (IsChannel c) = (Inr w, s1) \<and>
                     getMessageWriter s1 (IsService v) = (Inr w, s1) \<and> writer_text w = txt)) \<and>
         (reader_schema (IsService v) = Text txt \<and>
          fst (getMessageReader s (IsService v)) \<noteq> Inl LibraryError \<longrightarrow>
            (\<exists>r s1. getMessageReader s (IsService v) = (Inr r, s1) \<and>
                     getMessageReader s1 (IsChannel c) = (Inr r, s1) \<and> reader_text r = txt)) \<and>
         (writer_schema (IsService v) = Text txt \<and>
          fst (getMessageWriter s (IsService v)) \<noteq> Inl LibraryError \<longrightarrow>
            (\<exists>w s1. getMessageWriter s (IsService v) = (Inr w, s1) \<and>
                     getMessageWriter s1 (IsChannel c) = (Inr w, s1) \<and> writer_text w = txt))"
proof -
  have n: "codec_name (IsService v) = codec_name (IsChannel c)"
          "codec_name (IsChannel c) = codec_name (IsService v)"
    using assms(1) by (simp_all add: codec_name_def)
  have k: "map_of (messageReaders s) (codec_name (IsChannel c)) = None"
          "map_of (messageWriters s) (codec_name (IsChannel c)) = None"
          "map_of (messageReaders s) (codec_name (IsService v)) = None"
          "map_of (messageWriters s) (codec_name (IsService v)) = None"
    using assms by (simp_all add: codec_name_def)
  have t: "ch_schema c = Text txt \<Longrightarrow> reader_schema (IsChannel c) = Text txt"
          "ch_schema c = Text txt \<Longrightarrow> writer_schema (IsChannel c) = Text txt"
    by (simp_all add: reader_schema_def writer_schema_def)
  show ?thesis
    using reader_served_twice [OF n(1) k(1) t(1)] writer_served_twice [OF n(1) k(2) t(2)]
      reader_served_twice [OF n(2) k(3), of "txt"] writer_served_twice [OF n(2) k(4), of "txt"]
    by blast
qed

theorem codec_shared_by_channel_and_service_witness:
  "ch_schemaName example_channel = sv_type example_service \<and>
   map_of (messageReaders (FoxgloveSocket example_library True)) (sv_type example_service) = None \<and>
   map_of (messageWriters (FoxgloveSocket example_library True)) (sv_type example_service) = None \<and>
   ch_schema example_channel = Text ''string data'' \<and>
   fst (getMessageReader (FoxgloveSocket example_library True) (IsChannel example_channel)) \<noteq>
     Inl LibraryError \<and>
   fst (getMessageWriter (FoxgloveSocket example_library True) (IsChannel example_channel)) \<noteq>
     Inl LibraryError \<and>
   (\<exists>r s1. getMessageReader (FoxgloveSocket example_library True) (IsChannel example_channel) = (Inr r, s1) \<and>
            getMessageReader s1 (IsService example_service) = (Inr r, s1) \<and>
            reader_text r = ''string data'') \<and>
   (\<exists>w s1. getMessageWriter (FoxgloveSocket example_library True) (IsChannel example_channel) = (Inr w, s1) \<and>
            getMessageWriter s1 (IsService example_service) = (Inr w, s1) \<and>
            writer_text w = ''string data'') \<and>
   reader_schema (IsService example_service) = Text ''int64 sum'' \<and>
   fst (getMessageReader (FoxgloveSocket example_library True) (IsService example_service)) \<noteq>
     Inl LibraryError \<and>
   (\<exists>r s1. getMessageReader (FoxgloveSocket example_library True) (IsService example_service) = (Inr r, s1) \<and>
            getMessageReader s1 (IsChannel example_channel) = (Inr r, s1) \<and>
            reader_text r = ''int64 sum'') \<and>
   writer_schema (IsService example_service) = Text ''int64 a'' \<and>
   fst (getMessageWriter (FoxgloveSocket example_library True) (IsService example_service)) \<noteq>
     Inl LibraryError \<and>
   (\<exists>w s1. getMessageWriter (FoxgloveSocket example_library True) (IsService example_service) = (Inr w, s1) \<and>
            getMessageWriter s1 (IsChannel example_channel) = (Inr w, s1) \<and>
            writer_text w = ''int64 a'')"
proof -
  have h: "ch_schemaName example_channel = sv_type example_service"
    "map_of (messageReaders (FoxgloveSocket example_library True)) (sv_type example_service) = None"
    "map_of (messageWriters (FoxgloveSocket example_library True)) (sv_type example_service) = None"
    "ch_schema example_channel = Text ''string data''"
    by (simp_all add: example_channel_def example_service_def FoxgloveSocket_def)
  have l:
    "fst (getMessageReader (FoxgloveSocket example_library True) (IsChannel example_channel)) \<noteq>
       Inl LibraryError"
    "fst (getMessageWriter (FoxgloveSocket example_library True) (IsChannel example_channel)) \<noteq>
       Inl LibraryError"
    "reader_schema (IsService example_service) = Text ''int64 sum''"
    "fst (getMessageReader (FoxgloveSocket example_library True) (IsService example_service)) \<noteq>
       Inl LibraryError"
    "writer_schema (IsService example_service) = Text ''int64 a''"
    "fst (getMessageWriter (FoxgloveSocket example_library True) (IsService example_service)) \<noteq>
       Inl LibraryError"
    by code_simp+
  show ?thesis
    using h l
      codec_shared_by_channel_and_service [OF h(1,2,3), of "''string data''"]
      codec_shared_by_channel_and_service [OF h(1,2,3), of "''int64 sum''"]
      codec_shared_by_channel_and_service [OF h(1,2,3), of "''int64 a''"]
    by blast
qed

text \<open>
  The same in a run of the session: a subscription compiles the reader of the channel, and
  the response of a later call to the service, whose response schema is another text, is
  decoded by that reader.
\<close>

lemma response_decoded_by_channel_reader:
  "trace (run (FoxgloveSocket example_library True)
      [Emit (ev_advertise [example_channel]), Emit (ev_advertiseServices [example_service]),
       EndOfTask,
       Send (verb ''subscribe'' ''/t'' ''pkg/Msg''), EndOfTask,
       Emit (ev_message \<lparr>md_subscriptionId = 0, md_data = [0, 1, 0, 0, 1, 0, 0, 0, 0]\<rparr>),
       EndOfTask,
       Send (verb ''call_service'' ''/add'' ''pkg/Msg''), EndOfTask,
       Emit (ev_serviceCallResponse example_response), EndOfTask]) =
   [client_subscribe 7,
    ros_emit ''/t''
      (TopicMessage (readMessage (Ros2MessageReader 0 (parse ''string data'' True))
                       [0, 1, 0, 0, 1, 0, 0, 0, 0])),
    sendServiceCallRequest 3 0 ''cdr''
      (writeMessage (Ros2MessageWriter 1 (parse ''int64 a'' True)) ''{a: 1}''),
    ros_emit ''call:1''
      (Envelope (Some (Decoded (readMessage (Ros2MessageReader 0 (parse ''string data'' True))
                                  [0, 1, 0, 0, 3, 0, 0, 0, 0, 0, 0, 0])))
         True)]"
  by code_simp

section \<open>Dispatch of an event to the listeners\<close>

lemma removeAll_as_filter: "removeAll x xs = filter (\<lambda>y. y \<noteq> x) xs"
  by (induction xs) auto

lemma filter_not_in_Cons:
  "P l \<Longrightarrow> filter (\<lambda>x. x \<notin> set (filter P ls)) (filter (\<lambda>y. y \<noteq> l) xs) =
           filter (\<lambda>x. x \<notin> set (filter P (l # ls))) xs"
  by (auto intro: filter_cong)

lemma filter_not_in_self: "filter (\<lambda>x. x \<in> set xs \<longrightarrow> \<not> P x) xs = filter (\<lambda>x. \<not> P x) xs"
  by (rule filter_cong) auto

lemma serviceCallResponse_listener_hit:
  "response_key e l \<Longrightarrow> can_readMessage (lib s) (rl_reader l) (scr_data e) \<Longrightarrow>
   serviceCallResponse_listener e s l =
     (None, s\<lparr>on_serviceCallResponse := filter (\<lambda>y. y \<noteq> l) (on_serviceCallResponse s),
              trace := trace s @ [response_result e l]\<rparr>)"
  by (simp add: serviceCallResponse_listener_def response_key_def response_result_def
      removeAll_as_filter Let_def)

lemma serviceCallResponse_listener_throws:
  "response_key e l \<Longrightarrow> \<not> can_readMessage (lib s) (rl_reader l) (scr_data e) \<Longrightarrow>
   serviceCallResponse_listener e s l =
     (Some LibraryError,
      s\<lparr>on_serviceCallResponse := filter (\<lambda>y. y \<noteq> l) (on_serviceCallResponse s)\<rparr>)"
  by (simp add: serviceCallResponse_listener_def response_key_def removeAll_as_filter Let_def)

lemma serviceCallResponse_listener_miss:
  "\<not> response_key e l \<Longrightarrow> serviceCallResponse_listener e s l = (None, s)"
  by (auto simp add: serviceCallResponse_listener_def response_key_def)

lemma emit_serviceCallResponse_none:
  "filter (response_key e) ls = [] \<Longrightarrow> emit_serviceCallResponse s e ls = s"
proof (induction ls arbitrary: s)
  case Nil
  then show ?case by simp
next
  case (Cons l ls)
  have k: "\<not> response_key e l" and r: "filter (response_key e) ls = []"
    using Cons.prems by (simp_all split: if_splits)
  show ?case
    by (simp add: serviceCallResponse_listener_miss [OF k] Cons.IH [OF r])
qed

lemma emit_serviceCallResponse_one:
  "filter (response_key e) ls = [x] \<Longrightarrow>
   emit_serviceCallResponse s e ls =
     s\<lparr>on_serviceCallResponse := filter (\<lambda>y. y \<noteq> x) (on_serviceCallResponse s),
       trace := trace s @ [response_outcome (lib s) e x]\<rparr>"
proof (induction ls arbitrary: s)
  case Nil
  then show ?case by simp
next
  case (Cons l ls)
  show ?case
  proof (cases "response_key e l")
    case True
    then have x: "l = x" and r: "filter (response_key e) ls = []"
      using Cons.prems by simp_all
    have k: "response_key e x" using True x by simp
    show ?thesis
    proof (cases "can_readMessage (lib s) (rl_reader x) (scr_data e)")
      case d: True
      show ?thesis
        unfolding x using d
        by (simp add: serviceCallResponse_listener_hit [OF k d]
            emit_serviceCallResponse_none [OF r] response_outcome_def)
    next
      case d: False
      show ?thesis
        unfolding x using d
        by (simp add: serviceCallResponse_listener_throws [OF k d] response_outcome_def)
    qed
  next
    case False
    then have r: "filter (response_key e) ls = [x]"
      using Cons.prems by simp
    show ?thesis
      by (simp add: serviceCallResponse_listener_miss [OF False] Cons.IH [OF r])
  qed
qed

lemma serviceCallFailure_listener_hit:
  "failure_key e l \<Longrightarrow> serviceCallFailure_listener e s l =
     s\<lparr>on_serviceCallFailure := filter (\<lambda>y. y \<noteq> l) (on_serviceCallFailure s),
       trace := trace s @ [failure_result e l]\<rparr>"
  by (simp_all add: serviceCallFailure_listener_def failure_key_def failure_result_def removeAll_as_filter)

lemma serviceCallFailure_listener_miss:
  "\<not> failure_key e l \<Longrightarrow> serviceCallFailure_listener e s l = s"
  by (auto simp add: serviceCallFailure_listener_def failure_key_def)

lemma foldl_serviceCallFailure_listener:
  "foldl (serviceCallFailure_listener e) s ls =
     s\<lparr>on_serviceCallFailure := filter (\<lambda>x. x \<notin> set (filter (failure_key e) ls)) (on_serviceCallFailure s),
       trace := trace s @ map (failure_result e) (filter (failure_key e) ls)\<rparr>"
proof (induction ls arbitrary: s)
  case Nil
  then show ?case by simp
next
  case (Cons l ls)
  show ?case
  proof (cases "failure_key e l")
    case True
    show ?thesis
      using True
      by (simp only: foldl_Cons Cons.IH serviceCallFailure_listener_hit [OF True])
         (simp add: filter_not_in_Cons [of "failure_key e", OF True])
  next
    case False
    then show ?thesis
      by (simp only: foldl_Cons Cons.IH serviceCallFailure_listener_miss [OF False]) simp
  qed
qed

lemma parameterValues_listener_hit:
  "parameter_key e l \<Longrightarrow> parameterValues_listener e s l =
     s\<lparr>on_parameterValues := filter (\<lambda>y. y \<noteq> l) (on_parameterValues s),
       trace := trace s @ [parameter_result e l]\<rparr>"
  by (cases l) (simp_all add: removeAll_as_filter)

lemma parameterValues_listener_miss:
  "\<not> parameter_key e l \<Longrightarrow> parameterValues_listener e s l = s"
  by (cases l) auto

lemma foldl_parameterValues_listener:
  "foldl (parameterValues_listener e) s ls =
     s\<lparr>on_parameterValues := filter (\<lambda>x. x \<notin> set (filter (parameter_key e) ls)) (on_parameterValues s),
       trace := trace s @ map (parameter_result e) (filter (parameter_key e) ls)\<rparr>"
proof (induction ls arbitrary: s)
  case Nil
  then show ?case by simp
next
  case (Cons l ls)
  show ?case
  proof (cases "parameter_key e l")
    case True
    show ?thesis
      using True
      by (simp only: foldl_Cons Cons.IH parameterValues_listener_hit [OF True])
         (simp add: filter_not_in_Cons [of "parameter_key e", OF True])
  next
    case False
    then show ?thesis
      by (simp only: foldl_Cons Cons.IH parameterValues_listener_miss [OF False]) simp
  qed
qed

lemma emit_serviceCallFailure:
  "emit s (ev_serviceCallFailure e) =
     s\<lparr>on_serviceCallFailure := filter (\<lambda>l. \<not> failure_key e l) (on_serviceCallFailure s),
       trace := trace s @ map (failure_result e) (filter (failure_key e) (on_serviceCallFailure s))\<rparr>"
  by (simp add: foldl_serviceCallFailure_listener filter_not_in_self)

lemma emit_parameterValues:
  "emit s (ev_parameterValues e) =
     s\<lparr>on_parameterValues := filter (\<lambda>l. \<not> parameter_key e l) (on_parameterValues s),
       trace := trace s @ map (parameter_result e) (filter (parameter_key e) (on_parameterValues s))\<rparr>"
  by (simp add: foldl_parameterValues_listener filter_not_in_self)

section \<open>The bookkeeping of service calls along a run\<close>

lemma getMessageWriter_result_views:
  "getMessageWriter s d = (x, s1) \<Longrightarrow>
   calls s1 = calls s \<and> directory s1 = directory s \<and> setting s1 = setting s"
  using getMessageWriter_views [of s d] by simp

lemma getMessageReader_result_views:
  "getMessageReader s d = (x, s1) \<Longrightarrow>
   calls s1 = calls s \<and> directory s1 = directory s \<and> setting s1 = setting s"
  using getMessageReader_views [of s d] by simp

lemma rejected_views [simp]:
  "calls (s\<lparr>trace := trace s @ [unhandled_rejection e]\<rparr>) = calls s"
  "calls (s\<lparr>trace := trace s @ [uncaught e]\<rparr>) = calls s"
  "directory (s\<lparr>trace := es\<rparr>) = directory s"
  "setting (s\<lparr>trace := es\<rparr>) = setting s"
  by (simp_all add: calls_def directory_def setting_def)

lemma callService_resumed_sends:
  assumes "getMessageWriter s (IsService v) = (Inr w, s1)"
      and "getMessageReader s1 (IsService v) = (Inr r, s2)"
  shows "callService_resumed s m v =
           s2\<lparr>callId := Suc (callId s2),
              on_serviceCallResponse := on_serviceCallResponse s2 @
                [\<lparr>rl_service = v, rl_callId = callId s2, rl_reader = r, rl_id = m_id m\<rparr>],
              on_serviceCallFailure := on_serviceCallFailure s2 @
                [\<lparr>fl_service = v, fl_callId = callId s2, fl_id = m_id m\<rparr>],
              trace := trace s2 @
                [if can_writeMessage (lib s2) w (a_object (m_args m))
                 then sendServiceCallRequest (sv_id v) (callId s2)
                        (if isRos2 s2 then ''cdr'' else ''ros1'')
                        (writeMessage w (a_object (m_args m)))
                 else unhandled_rejection LibraryError]\<rparr>"
  by (simp add: callService_resumed_def assms Let_def)

lemma callService_resumed_directory [simp]:
  "directory (callService_resumed s m v) = directory s"
  "setting (callService_resumed s m v) = setting s"
proof -
  obtain x s1 where w: "getMessageWriter s (IsService v) = (x, s1)"
    by (cases "getMessageWriter s (IsService v)")
  obtain y s2 where r: "getMessageReader s1 (IsService v) = (y, s2)"
    by (cases "getMessageReader s1 (IsService v)")
  have d: "directory s1 = directory s" "directory s2 = directory s"
          "setting s1 = setting s" "setting s2 = setting s"
    using getMessageWriter_result_views [OF w] getMessageReader_result_views [OF r] by simp_all
  have "directory (callService_resumed s m v) = directory s \<and>
        setting (callService_resumed s m v) = setting s"
  proof (cases x)
    case (Inl e)
    then show ?thesis using d by (simp add: callService_resumed_def w)
  next
    case (Inr wr)
    show ?thesis
    proof (cases y)
      case (Inl e)
      then show ?thesis using d Inr by (simp add: callService_resumed_def w r)
    next
      case Inr2: (Inr rd)
      show ?thesis
        using d(2,4)
        by (simp add: callService_resumed_sends [OF w [unfolded Inr] r [unfolded Inr2]]
            directory_def setting_def)
    qed
  qed
  then show "directory (callService_resumed s m v) = directory s"
    "setting (callService_resumed s m v) = setting s"
    by simp_all
qed

lemma callService_resumed_calls:
  "calls_step (calls s) (calls (callService_resumed s m v))"
proof -
  obtain x s1 where w: "getMessageWriter s (IsService v) = (x, s1)"
    by (cases "getMessageWriter s (IsService v)")
  obtain y s2 where r: "getMessageReader s1 (IsService v) = (y, s2)"
    by (cases "getMessageReader s1 (IsService v)")
  have c: "calls s1 = calls s" "calls s2 = calls s"
    using getMessageWriter_result_views [OF w] getMessageReader_result_views [OF r] by simp_all
  show ?thesis
  proof (cases x)
    case (Inl e)
    then show ?thesis using c by (simp add: callService_resumed_def w calls_step.unchanged)
  next
    case (Inr wr)
    show ?thesis
    proof (cases y)
      case (Inl e)
      then show ?thesis using c Inr by (simp add: callService_resumed_def w r calls_step.unchanged)
    next
      case Inr2: (Inr rd)
      have s: "calls s = (call_ids (trace s2), callId s2, on_serviceCallResponse s2,
                          on_serviceCallFailure s2)"
        using c(2) by (simp add: calls_def)
      show ?thesis
      proof (cases "can_writeMessage (lib s2) wr (a_object (m_args m))")
        case True
        then have "calls (callService_resumed s m v) =
              (call_ids (trace s2) @ [callId s2], Suc (callId s2),
               on_serviceCallResponse s2 @
                 [\<lparr>rl_service = v, rl_callId = callId s2, rl_reader = rd, rl_id = m_id m\<rparr>],
               on_serviceCallFailure s2 @
                 [\<lparr>fl_service = v, fl_callId = callId s2, fl_id = m_id m\<rparr>])"
          by (simp add: callService_resumed_sends [OF w [unfolded Inr] r [unfolded Inr2]] calls_def)
        with s show ?thesis by (simp add: calls_step.call_sent)
      next
        case False
        then have "calls (callService_resumed s m v) =
              (call_ids (trace s2), Suc (callId s2),
               on_serviceCallResponse s2 @
                 [\<lparr>rl_service = v, rl_callId = callId s2, rl_reader = rd, rl_id = m_id m\<rparr>],
               on_serviceCallFailure s2 @
                 [\<lparr>fl_service = v, fl_callId = callId s2, fl_id = m_id m\<rparr>])"
          by (simp add: callService_resumed_sends [OF w [unfolded Inr] r [unfolded Inr2]] calls_def)
        with s show ?thesis by (simp add: calls_step.call_not_sent)
      qed
    qed
  qed
qed

lemma run_microtask_directory [simp]:
  "directory (run_microtask s t) = directory s"
  "setting (run_microtask s t) = setting s"
proof -
  have "directory (run_microtask s t) = directory s \<and> setting (run_microtask s t) = setting s"
  proof (cases t)
    case (channel_resolved k c)
    show ?thesis
    proof (cases k)
      case (advertise_then publisherId p)
      obtain x s1 where w: "getMessageWriter s (IsChannel c) = (x, s1)"
        by (cases "getMessageWriter s (IsChannel c)")
      show ?thesis
        using getMessageWriter_result_views [OF w]
        by (cases x) (simp_all add: channel_resolved advertise_then w)
    next
      case (subscribe_await m)
      then show ?thesis by (simp add: channel_resolved)
    qed
  next
    case (service_resolved m v)
    then show ?thesis by simp
  next
    case (publish_resolved f msg)
    then show ?thesis by (cases f) auto
  qed
  then show "directory (run_microtask s t) = directory s"
    "setting (run_microtask s t) = setting s"
    by simp_all
qed

lemma run_microtask_calls: "calls_step (calls s) (calls (run_microtask s t))"
proof (cases t)
  case (channel_resolved k c)
  show ?thesis
  proof (cases k)
    case (advertise_then publisherId p)
    obtain x s1 where w: "getMessageWriter s (IsChannel c) = (x, s1)"
      by (cases "getMessageWriter s (IsChannel c)")
    show ?thesis
      using getMessageWriter_result_views [OF w]
      by (cases x) (simp_all add: channel_resolved advertise_then w calls_step.unchanged)
  next
    case (subscribe_await m)
    then show ?thesis by (simp add: channel_resolved calls_step.unchanged)
  qed
next
  case (service_resolved m v)
  then show ?thesis by (simp add: callService_resumed_calls)
next
  case (publish_resolved f msg)
  then show ?thesis by (cases f) (auto simp: calls_def calls_step.unchanged)
qed

lemma foldl_calls:
  assumes "\<And>s x. calls_step\<^sup>*\<^sup>* (calls s) (calls (f s x))"
  shows "calls_step\<^sup>*\<^sup>* (calls s) (calls (foldl f s xs))"
proof (induction xs arbitrary: s)
  case Nil
  then show ?case by simp
next
  case (Cons x xs)
  have "calls_step\<^sup>*\<^sup>* (calls s) (calls (f s x))" by (rule assms)
  also have "calls_step\<^sup>*\<^sup>* (calls (f s x)) (calls (foldl f (f s x) xs))" by (rule Cons.IH)
  finally show ?case by simp
qed

lemma run_queued_directory [simp]:
  "directory (run_queued s) = directory s"
  "setting (run_queued s) = setting s"
proof -
  have "directory (run_queued s) = directory (s\<lparr>microtasks := []\<rparr>)"
    unfolding run_queued_def by (rule foldl_view) simp
  then show "directory (run_queued s) = directory s" by (simp add: directory_def)
  have "setting (run_queued s) = setting (s\<lparr>microtasks := []\<rparr>)"
    unfolding run_queued_def by (rule foldl_view) simp
  then show "setting (run_queued s) = setting s" by (simp add: setting_def)
qed

lemma run_queued_calls: "calls_step\<^sup>*\<^sup>* (calls s) (calls (run_queued s))"
proof -
  have "calls_step\<^sup>*\<^sup>* (calls (s\<lparr>microtasks := []\<rparr>)) (calls (run_queued s))"
    unfolding run_queued_def by (rule foldl_calls) (simp add: run_microtask_calls r_into_rtranclp)
  then show ?thesis by (simp add: calls_def)
qed

lemma run_microtasks_directory [simp]:
  "directory (run_microtasks s) = directory s"
  "setting (run_microtasks s) = setting s"
  by (simp_all add: run_microtasks_def)

lemma run_microtasks_calls: "calls_step\<^sup>*\<^sup>* (calls s) (calls (run_microtasks s))"
  unfolding run_microtasks_def
  using run_queued_calls [of s] run_queued_calls [of "run_queued s"] by (rule rtranclp_trans)

lemma message_listener_views:
  "calls (snd (message_listener e s l)) = calls s"
  "directory (snd (message_listener e s l)) = directory s"
  "setting (snd (message_listener e s l)) = setting s"
proof -
  obtain x s1 where r: "getMessageReader s (IsChannel (ml_channel l)) = (x, s1)"
    by (cases "getMessageReader s (IsChannel (ml_channel l))")
  show "calls (snd (message_listener e s l)) = calls s"
    using getMessageReader_result_views [OF r]
    by (cases x) (simp_all add: message_listener_def r calls_def)
  show "directory (snd (message_listener e s l)) = directory s"
    using getMessageReader_result_views [OF r]
    by (cases x) (simp_all add: message_listener_def r directory_def)
  show "setting (snd (message_listener e s l)) = setting s"
    using getMessageReader_result_views [OF r]
    by (cases x) (simp_all add: message_listener_def r setting_def)
qed

lemma emit_message_views':
  "calls (emit_message s e ls) = calls s \<and> directory (emit_message s e ls) = directory s \<and>
   setting (emit_message s e ls) = setting s"
proof (induction ls arbitrary: s)
  case Nil
  show ?case by simp
next
  case (Cons l ls)
  obtain x s1 where m: "message_listener e s l = (x, s1)"
    by (cases "message_listener e s l")
  have v: "calls s1 = calls s" "directory s1 = directory s" "setting s1 = setting s"
    using message_listener_views [of e s l] m by simp_all
  show ?case using v Cons.IH [of s1] by (cases x) (simp_all add: m)
qed

lemma emit_message_views [simp]:
  "calls (emit_message s e ls) = calls s"
  "directory (emit_message s e ls) = directory s"
  "setting (emit_message s e ls) = setting s"
  by (simp_all add: emit_message_views')

lemma emit_serviceCallResponse_views':
  "caches (emit_serviceCallResponse s e ls) = caches s \<and>
   directory (emit_serviceCallResponse s e ls) = directory s \<and>
   schema_errors (emit_serviceCallResponse s e ls) = schema_errors s \<and>
   setting (emit_serviceCallResponse s e ls) = setting s"
proof (induction ls arbitrary: s)
  case Nil
  show ?case by simp
next
  case (Cons l ls)
  obtain x s1 where m: "serviceCallResponse_listener e s l = (x, s1)"
    by (cases "serviceCallResponse_listener e s l")
  have t: "x = None \<or> x = Some LibraryError"
    using m by (auto simp: serviceCallResponse_listener_def Let_def split: if_splits)
  have v: "caches s1 = caches s" "directory s1 = directory s" "schema_errors s1 = schema_errors s"
          "setting s1 = setting s"
    using serviceCallResponse_listener_views [of e s l] m by simp_all
  show ?case
    using t v Cons.IH [of s1] by (auto simp: m caches_def schema_errors_def)
qed

lemma emit_serviceCallResponse_views [simp]:
  "caches (emit_serviceCallResponse s e ls) = caches s"
  "directory (emit_serviceCallResponse s e ls) = directory s"
  "schema_errors (emit_serviceCallResponse s e ls) = schema_errors s"
  "setting (emit_serviceCallResponse s e ls) = setting s"
  by (simp_all add: emit_serviceCallResponse_views')

lemma serviceCallResponse_listener_calls:
  "calls_step (calls s) (calls (snd (serviceCallResponse_listener e s l)))"
proof (cases "response_key e l")
  case True
  show ?thesis
  proof (cases "can_readMessage (lib s) (rl_reader l) (scr_data e)")
    case d: True
    show ?thesis
      by (simp add: serviceCallResponse_listener_hit [OF True d] calls_def response_result_def
          calls_step.responses_detached)
  next
    case d: False
    show ?thesis
      by (simp add: serviceCallResponse_listener_throws [OF True d] calls_def
          calls_step.responses_detached)
  qed
next
  case False
  then show ?thesis by (simp add: serviceCallResponse_listener_miss calls_step.unchanged)
qed

lemma emit_serviceCallResponse_calls:
  "calls_step\<^sup>*\<^sup>* (calls s) (calls (emit_serviceCallResponse s e ls))"
proof (induction ls arbitrary: s)
  case Nil
  show ?case by simp
next
  case (Cons l ls)
  obtain x s1 where m: "serviceCallResponse_listener e s l = (x, s1)"
    by (cases "serviceCallResponse_listener e s l")
  have k: "calls_step (calls s) (calls s1)"
    using serviceCallResponse_listener_calls [of s e l] m by simp
  show ?case
  proof (cases x)
    case None
    have "calls_step\<^sup>*\<^sup>* (calls s) (calls s1)" using k by (rule r_into_rtranclp)
    also have "calls_step\<^sup>*\<^sup>* (calls s1) (calls (emit_serviceCallResponse s1 e ls))"
      by (rule Cons.IH)
    finally show ?thesis using None by (simp add: m)
  next
    case (Some a)
    then show ?thesis using k by (simp add: m r_into_rtranclp)
  qed
qed

lemma call_ids_results [simp]:
  "call_ids (map (response_result r) rl) = []"
  "call_ids (map (failure_result f) fl) = []"
  by (induction rl, simp_all add: response_result_def)
     (induction fl, simp_all add: failure_result_def)

lemma emit_calls: "calls_step\<^sup>*\<^sup>* (calls s) (calls (emit s e))"
proof (cases e)
  case (ev_advertise channels)
  have "calls (emit s e) = calls (advertise_handler s channels)"
    unfolding ev_advertise emit.simps by (rule foldl_view) simp
  then show ?thesis by simp
next
  case (ev_advertiseServices services)
  have "calls (emit s e) = calls (advertiseServices_handler s services)"
    unfolding ev_advertiseServices emit.simps by (rule foldl_view) simp
  then show ?thesis by simp
next
  case (ev_serviceCallResponse r)
  then show ?thesis by (simp add: emit_serviceCallResponse_calls)
next
  case (ev_serviceCallFailure f)
  then show ?thesis
    by (simp only: emit_serviceCallFailure)
       (simp add: calls_def calls_step.failures_detached r_into_rtranclp)
next
  case (ev_parameterValues p)
  have "calls (emit s e) = calls s"
    unfolding ev_parameterValues emit.simps by (rule foldl_view) simp
  then show ?thesis by simp
next
  case (ev_connectionGraphUpdate g)
  have "calls (emit s e) = calls s"
    unfolding ev_connectionGraphUpdate emit.simps by (rule foldl_view) simp
  then show ?thesis by simp
qed (simp_all, simp_all add: calls_def)

lemma step_calls: "calls_step\<^sup>*\<^sup>* (calls s) (calls (step s i))"
  by (cases i) (simp_all add: run_microtasks_calls emit_calls)

lemma run_calls: "calls_step\<^sup>*\<^sup>* (calls s) (calls (run s inputs))"
  unfolding run_def by (rule foldl_calls) (rule step_calls)

lemma sorted_wrt_snoc:
  "sorted_wrt (<) (xs @ [n]) \<longleftrightarrow> sorted_wrt (<) xs \<and> (\<forall>x \<in> set xs. x < (n::nat))"
  by (auto simp: sorted_wrt_append)

lemma calls_step_wf: "calls_step c c' \<Longrightarrow> calls_wf c \<Longrightarrow> calls_wf c'"
proof (induction rule: calls_step.induct)
  case (unchanged c)
  then show ?case by simp
next
  case (responses_detached ids cid rl fl P)
  then show ?case by (auto simp: calls_wf_def list_all_iff distinct_map_filter)
next
  case (failures_detached ids cid rl fl P)
  then show ?case by (auto simp: calls_wf_def list_all_iff distinct_map_filter)
next
  case (call_sent ids cid rl fl v reader mid)
  then show ?case by (auto simp: calls_wf_def list_all_iff sorted_wrt_snoc)
next
  case (call_not_sent ids cid rl fl v reader mid)
  then show ?case by (auto simp: calls_wf_def list_all_iff)
qed

lemma calls_steps_wf: "calls_step\<^sup>*\<^sup>* c c' \<Longrightarrow> calls_wf c \<Longrightarrow> calls_wf c'"
  by (induction rule: rtranclp_induct) (auto intro: calls_step_wf)

lemma reachable_calls_wf: "calls_wf (calls (run (FoxgloveSocket lb ros2) inputs))"
proof -
  have "calls_wf (calls (FoxgloveSocket lb ros2))"
    by (simp add: calls_wf_def calls_def FoxgloveSocket_def)
  with run_calls [of "FoxgloveSocket lb ros2" inputs] show ?thesis
    by (rule calls_steps_wf)
qed

text \<open>The libraries and the ROS version of a session do not change.\<close>

lemma emit_setting [simp]: "setting (emit s e) = setting s"
proof (cases e)
  case (ev_advertise channels)
  have "setting (emit s e) = setting (advertise_handler s channels)"
    unfolding ev_advertise emit.simps by (rule foldl_view) simp
  then show ?thesis by simp
next
  case (ev_advertiseServices services)
  have "setting (emit s e) = setting (advertiseServices_handler s services)"
    unfolding ev_advertiseServices emit.simps by (rule foldl_view) simp
  then show ?thesis by simp
next
  case (ev_serviceCallFailure f)
  show ?thesis unfolding ev_serviceCallFailure emit.simps by (rule foldl_view) simp
next
  case (ev_parameterValues p)
  show ?thesis unfolding ev_parameterValues emit.simps by (rule foldl_view) simp
next
  case (ev_connectionGraphUpdate g)
  show ?thesis unfolding ev_connectionGraphUpdate emit.simps by (rule foldl_view) simp
qed (simp_all, simp_all add: setting_def)

lemma step_setting [simp]: "setting (step s i) = setting s"
  by (cases i) simp_all

lemma run_setting [simp]: "setting (run s inputs) = setting s"
  unfolding run_def by (rule foldl_view) simp

lemma run_lib [simp]: "lib (run (FoxgloveSocket lb ros2) inputs) = lb"
  using run_setting [of "FoxgloveSocket lb ros2" inputs]
  by (simp add: setting_def FoxgloveSocket_def)

text \<open>What \<^verbatim>\<open>#callService\<close> does after its \<^verbatim>\<open>await\<close> when both codecs can be had.\<close>

lemma has_writer_Inr:
  "has_writer s d \<Longrightarrow> \<exists>w s1. getMessageWriter s d = (Inr w, s1) \<and> trace s1 = trace s"
  by (auto simp: has_writer_def getMessageWriter_def Let_def
      split: option.splits jsstring.splits if_splits)

lemma has_reader_Inr:
  "has_reader s d \<Longrightarrow> \<exists>r s1. getMessageReader s d = (Inr r, s1) \<and> trace s1 = trace s"
  by (auto simp: has_reader_def getMessageReader_def Let_def
      split: option.splits jsstring.splits if_splits)

lemma has_reader_cong:
  "messageReaders s' = messageReaders s \<Longrightarrow> setting s' = setting s \<Longrightarrow>
   has_reader s' d = has_reader s d"
  by (simp add: has_reader_def getMessageReader_def Let_def setting_def
      split: option.splits jsstring.splits)

lemma getMessageWriter_keeps_readers:
  "messageReaders (snd (getMessageWriter s d)) = messageReaders s"
  by (simp add: getMessageWriter_def Let_def split: option.splits jsstring.splits)

lemma callService_resumed_request:
  assumes "has_writer s (IsService v)" and "has_reader s (IsService v)"
  shows "\<exists>w r. fst (getMessageWriter s (IsService v)) = Inr w \<and>
             fst (getMessageReader (callService_resumed s m v) (IsService v)) = Inr r \<and>
             trace (callService_resumed s m v) =
               trace s @
               [if can_writeMessage (lib s) w (a_object (m_args m))
                then sendServiceCallRequest (sv_id v) (callId s)
                       (if isRos2 s then ''cdr'' else ''ros1'')
                       (writeMessage w (a_object (m_args m)))
                else unhandled_rejection LibraryError] \<and>
             callId (callService_resumed s m v) = Suc (callId s) \<and>
             on_serviceCallResponse (callService_resumed s m v) =
               on_serviceCallResponse s @
                 [\<lparr>rl_service = v, rl_callId = callId s, rl_reader = r, rl_id = m_id m\<rparr>] \<and>
             on_serviceCallFailure (callService_resumed s m v) =
               on_serviceCallFailure s @
                 [\<lparr>fl_service = v, fl_callId = callId s, fl_id = m_id m\<rparr>]"
proof -
  obtain w s1 where w: "getMessageWriter s (IsService v) = (Inr w, s1)" "trace s1 = trace s"
    using has_writer_Inr [OF assms(1)] by blast
  have v1: "calls s1 = calls s" "setting s1 = setting s"
    using getMessageWriter_result_views [OF w(1)] by simp_all
  have "messageReaders s1 = messageReaders s"
    using getMessageWriter_keeps_readers [of s "IsService v"] w(1) by simp
  then have "has_reader s1 (IsService v)"
    using assms(2) v1(2) has_reader_cong [of s1 s "IsService v"] by simp
  then obtain r s2 where r: "getMessageReader s1 (IsService v) = (Inr r, s2)" "trace s2 = trace s1"
    using has_reader_Inr by blast
  have v2: "calls s2 = calls s1" "setting s2 = setting s1"
    using getMessageReader_result_views [OF r(1)] by simp_all
  have c: "callId s2 = callId s" "on_serviceCallResponse s2 = on_serviceCallResponse s"
      "on_serviceCallFailure s2 = on_serviceCallFailure s"
    using v1(1) v2(1) by (simp_all add: calls_def)
  have g: "lib s2 = lib s" "isRos2 s2 = isRos2 s"
    using v1(2) v2(2) by (simp_all add: setting_def)
  have k: "map_of (messageReaders s2) (codec_name (IsService v)) = Some r"
    using r(1) by (rule getMessageReader_Inr)
  have "fst (getMessageReader (callService_resumed s m v) (IsService v)) = Inr r"
    by (rule arg_cong [where f = fst, OF getMessageReader_cached, simplified])
       (simp add: callService_resumed_sends [OF w(1) r(1)] k)
  moreover have "fst (getMessageWriter s (IsService v)) = Inr w"
    using w(1) by simp
  ultimately show ?thesis
    using c g w(2) r(2) by (simp add: callService_resumed_sends [OF w(1) r(1)])
qed

section \<open>Codecs are never evicted\<close>

lemma caches_kept_refl [simp]: "caches_kept c c"
  by (simp add: caches_kept_def)

lemma caches_kept_trans: "caches_kept a b \<Longrightarrow> caches_kept b c \<Longrightarrow> caches_kept a c"
  by (simp add: caches_kept_def)

lemma getMessageReader_kept: "caches_kept (caches s) (caches (snd (getMessageReader s d)))"
  by (simp add: getMessageReader_def Let_def caches_kept_def caches_def update_conv'
      split: option.splits jsstring.splits)

lemma getMessageWriter_kept: "caches_kept (caches s) (caches (snd (getMessageWriter s d)))"
  by (simp add: getMessageWriter_def Let_def caches_kept_def caches_def update_conv'
      split: option.splits jsstring.splits)

lemma rejected_caches [simp]:
  "caches (s\<lparr>trace := trace s @ es\<rparr>) = caches s"
  by (simp add: caches_def)

lemma callService_resumed_kept: "caches_kept (caches s) (caches (callService_resumed s m v))"
proof -
  obtain x s1 where w: "getMessageWriter s (IsService v) = (x, s1)"
    by (cases "getMessageWriter s (IsService v)")
  obtain y s2 where r: "getMessageReader s1 (IsService v) = (y, s2)"
    by (cases "getMessageReader s1 (IsService v)")
  have k1: "caches_kept (caches s) (caches s1)"
    using getMessageWriter_kept [of s "IsService v"] w by simp
  have "caches_kept (caches s1) (caches s2)"
    using getMessageReader_kept [of s1 "IsService v"] r by simp
  with k1 have k2: "caches_kept (caches s) (caches s2)" by (rule caches_kept_trans)
  show ?thesis
  proof (cases x)
    case (Inl e)
    then show ?thesis using k1 by (simp add: callService_resumed_def w)
  next
    case (Inr wr)
    show ?thesis
    proof (cases y)
      case (Inl e)
      then show ?thesis using k2 Inr by (simp add: callService_resumed_def w r)
    next
      case Inr2: (Inr rd)
      have "caches (callService_resumed s m v) = caches s2"
        by (simp add: callService_resumed_sends [OF w [unfolded Inr] r [unfolded Inr2]] caches_def)
      then show ?thesis using k2 by simp
    qed
  qed
qed

lemma run_microtask_kept: "caches_kept (caches s) (caches (run_microtask s t))"
proof (cases t)
  case (channel_resolved k c)
  show ?thesis
  proof (cases k)
    case (advertise_then publisherId p)
    obtain x s1 where w: "getMessageWriter s (IsChannel c) = (x, s1)"
      by (cases "getMessageWriter s (IsChannel c)")
    show ?thesis
      using getMessageWriter_kept [of s "IsChannel c"]
      by (cases x) (simp_all add: channel_resolved advertise_then w)
  next
    case (subscribe_await m)
    then show ?thesis by (simp add: channel_resolved)
  qed
next
  case (service_resolved m v)
  then show ?thesis by (simp add: callService_resumed_kept)
next
  case (publish_resolved f msg)
  then show ?thesis by (cases f) (auto simp: caches_def)
qed

lemma foldl_kept:
  assumes "\<And>s x. caches_kept (caches s) (caches (f s x))"
  shows "caches_kept (caches s) (caches (foldl f s xs))"
proof (induction xs arbitrary: s)
  case Nil
  then show ?case by simp
next
  case (Cons x xs)
  have "caches_kept (caches s) (caches (f s x))" by (rule assms)
  moreover have "caches_kept (caches (f s x)) (caches (foldl f (f s x) xs))" by (rule Cons.IH)
  ultimately show ?case by (simp add: caches_kept_trans)
qed

lemma run_queued_kept: "caches_kept (caches s) (caches (run_queued s))"
proof -
  have "caches_kept (caches (s\<lparr>microtasks := []\<rparr>)) (caches (run_queued s))"
    unfolding run_queued_def by (rule foldl_kept) (rule run_microtask_kept)
  then show ?thesis by (simp add: caches_def)
qed

lemma run_microtasks_kept: "caches_kept (caches s) (caches (run_microtasks s))"
  unfolding run_microtasks_def
  using run_queued_kept [of s] run_queued_kept [of "run_queued s"] by (rule caches_kept_trans)

lemma message_listener_kept: "caches_kept (caches s) (caches (snd (message_listener e s l)))"
proof -
  obtain x s1 where r: "getMessageReader s (IsChannel (ml_channel l)) = (x, s1)"
    by (cases "getMessageReader s (IsChannel (ml_channel l))")
  show ?thesis
    using getMessageReader_kept [of s "IsChannel (ml_channel l)"]
    by (cases x) (simp_all add: message_listener_def r)
qed

lemma emit_message_kept: "caches_kept (caches s) (caches (emit_message s e ls))"
proof (induction ls arbitrary: s)
  case Nil
  show ?case by simp
next
  case (Cons l ls)
  obtain x s1 where m: "message_listener e s l = (x, s1)"
    by (cases "message_listener e s l")
  have k: "caches_kept (caches s) (caches s1)"
    using message_listener_kept [of s e l] m by simp
  show ?case
  proof (cases x)
    case None
    then show ?thesis using caches_kept_trans [OF k Cons.IH [of s1]] by (simp add: m)
  next
    case (Some a)
    then show ?thesis using k by (simp add: m)
  qed
qed

lemma emit_kept: "caches_kept (caches s) (caches (emit s e))"
proof (cases e)
  case (ev_advertise cs)
  have "caches (emit s e) = caches (advertise_handler s cs)"
    unfolding ev_advertise emit.simps by (rule foldl_view) simp
  then show ?thesis by simp
next
  case (ev_advertiseServices vs)
  have "caches (emit s e) = caches (advertiseServices_handler s vs)"
    unfolding ev_advertiseServices emit.simps by (rule foldl_view) simp
  then show ?thesis by simp
next
  case (ev_message d)
  then show ?thesis by (simp add: emit_message_kept)
next
  case (ev_serviceCallResponse r)
  then show ?thesis by simp
next
  case (ev_serviceCallFailure f)
  have "caches (emit s e) = caches s"
    unfolding ev_serviceCallFailure emit.simps by (rule foldl_view) simp
  then show ?thesis by simp
next
  case (ev_parameterValues p)
  have "caches (emit s e) = caches s"
    unfolding ev_parameterValues emit.simps by (rule foldl_view) simp
  then show ?thesis by simp
next
  case (ev_connectionGraphUpdate g)
  have "caches (emit s e) = caches s"
    unfolding ev_connectionGraphUpdate emit.simps by (rule foldl_view) simp
  then show ?thesis by simp
qed (simp_all, simp_all add: caches_def)

lemma step_kept: "caches_kept (caches s) (caches (step s i))"
  by (cases i) (simp_all add: run_microtasks_kept emit_kept)

lemma run_kept: "caches_kept (caches s) (caches (run s inputs))"
  unfolding run_def by (rule foldl_kept) (rule step_kept)

lemma reader_persists:
  "map_of (messageReaders s) k = Some r \<Longrightarrow> map_of (messageReaders (run s inputs)) k = Some r"
  using run_kept [of s inputs] by (simp add: caches_kept_def caches_def)

lemma writer_persists:
  "map_of (messageWriters s) k = Some w \<Longrightarrow> map_of (messageWriters (run s inputs)) k = Some w"
  using run_kept [of s inputs] by (simp add: caches_kept_def caches_def)

text \<open>Every response listener keeps the reader of its service.\<close>

lemma tied_frame:
  assumes "readers_tied s" and "caches_kept (caches s) (caches s')"
      and "set (on_serviceCallResponse s') \<subseteq> set (on_serviceCallResponse s)"
  shows "readers_tied s'"
  using assms by (auto simp: readers_tied_def caches_kept_def caches_def list_all_iff)

lemma calls_registry:
  "calls s' = calls s \<Longrightarrow> on_serviceCallResponse s' = on_serviceCallResponse s"
  by (simp add: calls_def)

lemma callService_resumed_tied:
  assumes "readers_tied s"
  shows "readers_tied (callService_resumed s m v)"
proof -
  obtain x s1 where w: "getMessageWriter s (IsService v) = (x, s1)"
    by (cases "getMessageWriter s (IsService v)")
  obtain y s2 where r: "getMessageReader s1 (IsService v) = (y, s2)"
    by (cases "getMessageReader s1 (IsService v)")
  have c: "calls s1 = calls s" "calls s2 = calls s"
    using getMessageWriter_result_views [OF w] getMessageReader_result_views [OF r] by simp_all
  have k1: "caches_kept (caches s) (caches s1)"
    using getMessageWriter_kept [of s "IsService v"] w by simp
  have "caches_kept (caches s1) (caches s2)"
    using getMessageReader_kept [of s1 "IsService v"] r by simp
  with k1 have k2: "caches_kept (caches s) (caches s2)" by (rule caches_kept_trans)
  have t2: "readers_tied s2"
    using assms k2 calls_registry [OF c(2)] by (auto intro: tied_frame)
  show ?thesis
  proof (cases x)
    case (Inl e)
    have "readers_tied (s1\<lparr>trace := trace s1 @ [unhandled_rejection e]\<rparr>)"
      using assms k1 calls_registry [OF c(1)] by (auto intro!: tied_frame [of s])
    then show ?thesis using Inl by (simp add: callService_resumed_def w)
  next
    case (Inr wr)
    show ?thesis
    proof (cases y)
      case (Inl e)
      have "readers_tied (s2\<lparr>trace := trace s2 @ [unhandled_rejection e]\<rparr>)"
        using assms k2 calls_registry [OF c(2)] by (auto intro!: tied_frame [of s])
      then show ?thesis using Inl Inr by (simp add: callService_resumed_def w r)
    next
      case Inr2: (Inr rd)
      have "map_of (messageReaders s2) (sv_type v) = Some rd"
        using getMessageReader_Inr [OF r [unfolded Inr2]] by (simp add: codec_name_def)
      then show ?thesis
        using t2
        by (simp add: callService_resumed_sends [OF w [unfolded Inr] r [unfolded Inr2]]
            readers_tied_def)
    qed
  qed
qed

lemma run_microtask_tied:
  assumes "readers_tied s"
  shows "readers_tied (run_microtask s t)"
proof (cases t)
  case (service_resolved m v)
  then show ?thesis using assms by (simp add: callService_resumed_tied)
next
  case (channel_resolved k c)
  have "calls (run_microtask s t) = calls s"
  proof (cases k)
    case (advertise_then publisherId p)
    obtain x s1 where w: "getMessageWriter s (IsChannel c) = (x, s1)"
      by (cases "getMessageWriter s (IsChannel c)")
    show ?thesis
      using getMessageWriter_result_views [OF w]
      by (cases x) (simp_all add: channel_resolved advertise_then w)
  next
    case (subscribe_await m)
    then show ?thesis by (simp add: channel_resolved)
  qed
  from assms run_microtask_kept [of s t] calls_registry [OF this] show ?thesis
    by (auto intro: tied_frame)
next
  case (publish_resolved f msg)
  then have "calls (run_microtask s t) = calls s"
    by (cases f) (auto simp: calls_def)
  from assms run_microtask_kept [of s t] calls_registry [OF this] show ?thesis
    by (auto intro: tied_frame)
qed

lemma foldl_tied:
  assumes "\<And>s x. readers_tied s \<Longrightarrow> readers_tied (f s x)"
  shows "readers_tied s \<Longrightarrow> readers_tied (foldl f s xs)"
  by (induction xs arbitrary: s) (simp_all add: assms)

lemma run_queued_tied: "readers_tied s \<Longrightarrow> readers_tied (run_queued s)"
proof -
  assume "readers_tied s"
  then have "readers_tied (s\<lparr>microtasks := []\<rparr>)" by (simp add: readers_tied_def)
  then show ?thesis
    unfolding run_queued_def by (rule foldl_tied [rotated]) (rule run_microtask_tied)
qed

lemma emit_serviceCallResponse_registry:
  "set (on_serviceCallResponse (emit_serviceCallResponse s e ls)) \<subseteq> set (on_serviceCallResponse s) \<and>
   on_serviceCallFailure (emit_serviceCallResponse s e ls) = on_serviceCallFailure s"
proof (induction ls arbitrary: s)
  case Nil
  show ?case by simp
next
  case (Cons l ls)
  show ?case
  proof (cases "response_key e l")
    case True
    show ?thesis
    proof (cases "can_readMessage (lib s) (rl_reader l) (scr_data e)")
      case d: True
      show ?thesis
        using Cons.IH [of "s\<lparr>on_serviceCallResponse := filter (\<lambda>y. y \<noteq> l) (on_serviceCallResponse s),
                             trace := trace s @ [response_result e l]\<rparr>"]
        by (auto simp: serviceCallResponse_listener_hit [OF True d])
    next
      case d: False
      show ?thesis by (auto simp: serviceCallResponse_listener_throws [OF True d])
    qed
  next
    case False
    then show ?thesis using Cons.IH [of s] by (simp add: serviceCallResponse_listener_miss)
  qed
qed

lemma emit_tied:
  assumes "readers_tied s"
  shows "readers_tied (emit s e)"
proof -
  have "set (on_serviceCallResponse (emit s e)) \<subseteq> set (on_serviceCallResponse s)"
  proof (cases e)
    case (ev_advertise channels)
    have "calls (emit s e) = calls (advertise_handler s channels)"
      unfolding ev_advertise emit.simps by (rule foldl_view) simp
    then show ?thesis using calls_registry [of "emit s e" s] by simp
  next
    case (ev_advertiseServices services)
    have "calls (emit s e) = calls (advertiseServices_handler s services)"
      unfolding ev_advertiseServices emit.simps by (rule foldl_view) simp
    then show ?thesis using calls_registry [of "emit s e" s] by simp
  next
    case (ev_unadvertise ids)
    then show ?thesis using calls_registry [of "emit s e" s] by simp
  next
    case (ev_unadvertiseServices ids)
    then show ?thesis using calls_registry [of "emit s e" s] by simp
  next
    case (ev_message d)
    then show ?thesis using calls_registry [of "emit s e" s] by simp
  next
    case (ev_serviceCallResponse r)
    then show ?thesis using emit_serviceCallResponse_registry by simp
  next
    case (ev_serviceCallFailure f)
    then show ?thesis by (simp only: emit_serviceCallFailure) simp
  next
    case (ev_parameterValues p)
    have "calls (emit s e) = calls s"
      unfolding ev_parameterValues emit.simps by (rule foldl_view) simp
    then show ?thesis using calls_registry [of "emit s e" s] by simp
  next
    case (ev_connectionGraphUpdate g)
    have "calls (emit s e) = calls s"
      unfolding ev_connectionGraphUpdate emit.simps by (rule foldl_view) simp
    then show ?thesis using calls_registry [of "emit s e" s] by simp
  qed simp_all
  with assms emit_kept [of s e] show ?thesis by (rule tied_frame)
qed

lemma step_tied:
  assumes "readers_tied s"
  shows "readers_tied (step s i)"
proof (cases i)
  case (Send m)
  have "caches_kept (caches s) (caches (send s m))" by simp
  with assms show ?thesis
    using calls_registry [of "send s m" s] by (auto simp: Send intro: tied_frame)
next
  case (Emit e)
  then show ?thesis using assms by (simp add: emit_tied)
next
  case Close
  then show ?thesis using assms by (simp add: readers_tied_def close_def)
next
  case EndOfTask
  then show ?thesis using assms by (simp add: run_microtasks_def run_queued_tied)
qed

lemma reachable_tied: "readers_tied (run (FoxgloveSocket lb ros2) inputs)"
proof -
  have "readers_tied (FoxgloveSocket lb ros2)"
    by (simp add: readers_tied_def FoxgloveSocket_def)
  then show ?thesis
    unfolding run_def by (rule foldl_tied [rotated]) (rule step_tied)
qed

text \<open>
  C6. Reader and writer are memoised by the name taken from the descriptor. Once a request
  for a descriptor has returned a codec, a request for any descriptor with the same name
  returns that same object and leaves the whole state, caches and object count included,
  as it was: nothing is compiled again. This holds for a request made at once and for a
  request made after any further run of the session.
\<close>

theorem codecs_memoized:
  assumes "codec_name d2 = codec_name d1"
  shows "(getMessageReader s d1 = (Inr r, s1) \<longrightarrow>
            getMessageReader s1 d2 = (Inr r, s1) \<and>
            getMessageReader (run s1 inputs) d2 = (Inr r, run s1 inputs)) \<and>
         (getMessageWriter s d1 = (Inr w, s2) \<longrightarrow>
            getMessageWriter s2 d2 = (Inr w, s2) \<and>
            getMessageWriter (run s2 inputs) d2 = (Inr w, run s2 inputs))"
proof -
  have "getMessageReader s1 d2 = (Inr r, s1) \<and>
        getMessageReader (run s1 inputs) d2 = (Inr r, run s1 inputs)"
    if "getMessageReader s d1 = (Inr r, s1)"
  proof -
    have c: "map_of (messageReaders s1) (codec_name d2) = Some r"
      using getMessageReader_Inr [OF that] assms by simp
    from c reader_persists [OF c, of inputs] show ?thesis
      by (simp add: getMessageReader_cached)
  qed
  moreover have "getMessageWriter s2 d2 = (Inr w, s2) \<and>
        getMessageWriter (run s2 inputs) d2 = (Inr w, run s2 inputs)"
    if "getMessageWriter s d1 = (Inr w, s2)"
  proof -
    have c: "map_of (messageWriters s2) (codec_name d2) = Some w"
      using getMessageWriter_Inr [OF that] assms by simp
    from c writer_persists [OF c, of inputs] show ?thesis
      by (simp add: getMessageWriter_cached)
  qed
  ultimately show ?thesis by blast
qed

theorem codecs_memoized_witness:
  "codec_name (IsService example_service) = codec_name (IsChannel example_channel) \<and>
   getMessageReader (FoxgloveSocket example_library True) (IsChannel example_channel) =
     (Inr (Ros2MessageReader 0 (parse ''string data'' True)),
      snd (getMessageReader (FoxgloveSocket example_library True) (IsChannel example_channel))) \<and>
   getMessageReader (snd (getMessageReader (FoxgloveSocket example_library True) (IsChannel example_channel)))
       (IsService example_service) =
     (Inr (Ros2MessageReader 0 (parse ''string data'' True)),
      snd (getMessageReader (FoxgloveSocket example_library True) (IsChannel example_channel))) \<and>
   getMessageReader
       (run (snd (getMessageReader (FoxgloveSocket example_library True) (IsChannel example_channel))) one_call)
       (IsService example_service) =
     (Inr (Ros2MessageReader 0 (parse ''string data'' True)),
      run (snd (getMessageReader (FoxgloveSocket example_library True) (IsChannel example_channel))) one_call) \<and>
   getMessageWriter (FoxgloveSocket example_library True) (IsChannel example_channel) =
     (Inr (Ros2MessageWriter 0 (parse ''string data'' True)),
      snd (getMessageWriter (FoxgloveSocket example_library True) (IsChannel example_channel))) \<and>
   getMessageWriter (snd (getMessageWriter (FoxgloveSocket example_library True) (IsChannel example_channel)))
       (IsService example_service) =
     (Inr (Ros2MessageWriter 0 (parse ''string data'' True)),
      snd (getMessageWriter (FoxgloveSocket example_library True) (IsChannel example_channel)))"
proof -
  have n: "codec_name (IsService example_service) = codec_name (IsChannel example_channel)"
    by (simp add: codec_name_def example_service_def example_channel_def)
  have r: "getMessageReader (FoxgloveSocket example_library True) (IsChannel example_channel) =
     (Inr (Ros2MessageReader 0 (parse ''string data'' True)),
      snd (getMessageReader (FoxgloveSocket example_library True) (IsChannel example_channel)))"
    by (simp add: getMessageReader_def FoxgloveSocket_def example_channel_def example_library_def
        Let_def)
  have w: "getMessageWriter (FoxgloveSocket example_library True) (IsChannel example_channel) =
     (Inr (Ros2MessageWriter 0 (parse ''string data'' True)),
      snd (getMessageWriter (FoxgloveSocket example_library True) (IsChannel example_channel)))"
    by (simp add: getMessageWriter_def FoxgloveSocket_def example_channel_def example_library_def
        Let_def)
  from codecs_memoized [OF n, of "FoxgloveSocket example_library True" _ _ one_call] r w n
  show ?thesis by blast
qed

section \<open>Service calls\<close>

lemma callService_builtin_queue:
  "microtasks (snd (callService_builtin s m)) = microtasks s"
  "on_advertiseServices (snd (callService_builtin s m)) = on_advertiseServices s"
  by (simp_all add: callService_builtin_def getParam_def setParam_def getTopics_def
      getServices_def getTopicType_def getServiceType_def Let_def
      split: option.splits json_text.splits)

lemma callService_goes_on:
  assumes "fst (callService_builtin s m) = None"
  shows "callService s m = getService (snd (callService_builtin s m)) (m_service m) m"
  using assms by (cases "callService_builtin s m") (simp add: callService_def)

lemma callService_resolves:
  assumes "fst (callService_builtin s m) = None"
  shows "(map_of (servicesByName s) (m_service m) = Some v \<longrightarrow>
            microtasks (callService s m) = microtasks s @ [service_resolved m v] \<and>
            on_advertiseServices (callService s m) = on_advertiseServices s) \<and>
         (map_of (servicesByName s) (m_service m) = None \<longrightarrow>
            microtasks (callService s m) = microtasks s \<and>
            on_advertiseServices (callService s m) = on_advertiseServices s @ [(m_service m, m)])"
proof -
  have "servicesByName (snd (callService_builtin s m)) = servicesByName s"
    using callService_builtin_views(2) [of s m] by (simp add: directory_def)
  then show ?thesis
    by (simp add: callService_goes_on [OF assms] getService_def callService_builtin_queue)
qed

lemma callService_resumed_no_codecs:
  assumes "\<not> (has_writer s (IsService v) \<and> has_reader s (IsService v))"
  shows "calls (callService_resumed s m v) = calls s"
proof -
  obtain x s1 where w: "getMessageWriter s (IsService v) = (x, s1)"
    by (cases "getMessageWriter s (IsService v)")
  obtain y s2 where r: "getMessageReader s1 (IsService v) = (y, s2)"
    by (cases "getMessageReader s1 (IsService v)")
  have c: "calls s1 = calls s" "calls s2 = calls s" "setting s1 = setting s"
    using getMessageWriter_result_views [OF w] getMessageReader_result_views [OF r] by simp_all
  show ?thesis
  proof (cases x)
    case (Inl e)
    then show ?thesis using c by (simp add: callService_resumed_def w)
  next
    case (Inr wr)
    then have "has_writer s (IsService v)" by (simp add: has_writer_def w)
    then have "\<not> has_reader s (IsService v)" using assms by simp
    moreover have "messageReaders s1 = messageReaders s"
      using getMessageWriter_keeps_readers [of s "IsService v"] w by simp
    ultimately have "\<not> has_reader s1 (IsService v)"
      using c(3) has_reader_cong [of s1 s "IsService v"] by simp
    then obtain e where "y = Inl e"
      by (cases y) (simp_all add: has_reader_def r)
    then show ?thesis using c Inr by (simp add: callService_resumed_def w r)
  qed
qed

lemma codecs_to_be_had:
  "(map_of (messageWriters s) (sv_type v) \<noteq> None \<longrightarrow> has_writer s (IsService v)) \<and>
   (map_of (messageReaders s) (sv_type v) \<noteq> None \<longrightarrow> has_reader s (IsService v)) \<and>
   (map_of (messageWriters s) (sv_type v) = None \<and> \<not> is_text (writer_schema (IsService v)) \<longrightarrow>
      \<not> has_writer s (IsService v)) \<and>
   (map_of (messageReaders s) (sv_type v) = None \<and> \<not> is_text (reader_schema (IsService v)) \<longrightarrow>
      \<not> has_reader s (IsService v))"
proof -
  have n: "codec_name (IsService v) = sv_type v" by (simp add: codec_name_def)
  have "has_writer s (IsService v)" if "map_of (messageWriters s) (sv_type v) \<noteq> None"
  proof -
    from that obtain w where "map_of (messageWriters s) (codec_name (IsService v)) = Some w"
      unfolding n by blast
    from getMessageWriter_cached [OF this] show ?thesis by (simp add: has_writer_def)
  qed
  moreover have "has_reader s (IsService v)" if "map_of (messageReaders s) (sv_type v) \<noteq> None"
  proof -
    from that obtain r where "map_of (messageReaders s) (codec_name (IsService v)) = Some r"
      unfolding n by blast
    from getMessageReader_cached [OF this] show ?thesis by (simp add: has_reader_def)
  qed
  moreover have "\<not> has_writer s (IsService v)"
    if "map_of (messageWriters s) (sv_type v) = None \<and> \<not> is_text (writer_schema (IsService v))"
    using that getMessageWriter_missing [of s "IsService v"] by (simp add: has_writer_def n)
  moreover have "\<not> has_reader s (IsService v)"
    if "map_of (messageReaders s) (sv_type v) = None \<and> \<not> is_text (reader_schema (IsService v))"
    using that getMessageReader_missing [of s "IsService v"] by (simp add: has_reader_def n)
  ultimately show ?thesis by blast
qed

lemma reachable_call_ids:
  "sorted_wrt (<) (call_ids (trace (run (FoxgloveSocket lb ros2) inputs))) \<and>
   list_all (\<lambda>i. i < callId (run (FoxgloveSocket lb ros2) inputs))
     (call_ids (trace (run (FoxgloveSocket lb ros2) inputs)))"
  using reachable_calls_wf [of lb ros2 inputs] by (simp add: calls_wf_def calls_def)




section \<open>Correlation of responses\<close>

lemma filter_unique:
  assumes "distinct (map f xs)" and "l \<in> set xs" and "P l" and "\<And>x. P x \<Longrightarrow> f x = f l"
  shows "filter P xs = [l]"
  using assms(1,2)
proof (induction xs)
  case Nil
  then show ?case by simp
next
  case (Cons x xs)
  show ?case
  proof (cases "x = l")
    case True
    have "filter P xs = []"
    proof (rule ccontr)
      assume "filter P xs \<noteq> []"
      then obtain y where "y \<in> set xs" "P y"
        by (metis filter_False)
      then have "f l \<in> set (map f xs)"
        using assms(4) [of y] by (metis image_eqI list.set_map)
      then show False using Cons.prems(1) True by auto
    qed
    then show ?thesis using True assms(3) by simp
  next
    case False
    then have m: "l \<in> set xs" using Cons.prems(2) by simp
    have "\<not> P x"
    proof
      assume "P x"
      then have "f x = f l" by (rule assms(4))
      moreover have "f l \<in> set (map f xs)" using m by simp
      ultimately show False using Cons.prems(1) by simp
    qed
    then show ?thesis using Cons.IH m Cons.prems(1) by simp
  qed
qed

lemma calls_step_no_key:
  "calls_step c c' \<Longrightarrow> no_listener_for n c \<Longrightarrow> no_listener_for n c'"
  by (induction rule: calls_step.induct) (auto simp: no_listener_for_def list_all_iff)

lemma calls_steps_no_key:
  "calls_step\<^sup>*\<^sup>* c c' \<Longrightarrow> no_listener_for n c \<Longrightarrow> no_listener_for n c'"
  by (induction rule: rtranclp_induct) (auto intro: calls_step_no_key)

lemma no_key_no_emission:
  assumes "\<forall>x \<in> set (on_serviceCallResponse s). rl_callId x \<noteq> scr_callId e"
  shows "emit s (ev_serviceCallResponse e) = s"
proof -
  have "filter (response_key e) (on_serviceCallResponse s) = []"
    using assms by (auto simp: response_key_def filter_empty_conv)
  then show ?thesis by (simp add: emit_serviceCallResponse_none)
qed

text \<open>
  The dispatch of a response when the registered listeners carry distinct call ids: at
  most one listener has the key of the response.
\<close>

lemma emit_response_unique:
  assumes "distinct (map rl_callId (on_serviceCallResponse s))"
  shows "emit s (ev_serviceCallResponse e) =
     s\<lparr>on_serviceCallResponse := filter (\<lambda>l. \<not> response_key e l) (on_serviceCallResponse s),
       trace := trace s @
         map (response_outcome (lib s) e) (filter (response_key e) (on_serviceCallResponse s))\<rparr>"
proof (cases "filter (response_key e) (on_serviceCallResponse s)")
  case Nil
  then have "filter (\<lambda>l. \<not> response_key e l) (on_serviceCallResponse s) = on_serviceCallResponse s"
    by (simp add: filter_empty_conv filter_id_conv)
  then show ?thesis using Nil by (simp add: emit_serviceCallResponse_none)
next
  case (Cons x xs)
  then have "x \<in> set (filter (response_key e) (on_serviceCallResponse s))" by simp
  then have x: "x \<in> set (on_serviceCallResponse s)" "response_key e x" by simp_all
  have f: "filter (response_key e) (on_serviceCallResponse s) = [x]"
    using assms x
  proof (rule filter_unique)
    fix y assume "response_key e y"
    then show "rl_callId y = rl_callId x" using x(2) by (simp add: response_key_def)
  qed
  have "filter (\<lambda>l. \<not> response_key e l) (on_serviceCallResponse s) =
        filter (\<lambda>y. y \<noteq> x) (on_serviceCallResponse s)"
  proof (rule filter_cong [OF refl])
    fix y assume y: "y \<in> set (on_serviceCallResponse s)"
    show "(\<not> response_key e y) = (y \<noteq> x)"
    proof
      assume "\<not> response_key e y"
      then show "y \<noteq> x" using x(2) by auto
    next
      assume n: "y \<noteq> x"
      show "\<not> response_key e y"
      proof
        assume "response_key e y"
        then have "y \<in> set (filter (response_key e) (on_serviceCallResponse s))" using y by simp
        then show False using n by (simp add: f)
      qed
    qed
  qed
  then show ?thesis by (simp add: emit_serviceCallResponse_one [OF f] f)
qed

text \<open>
  C4, as the code has it. Take a state of a session and a success listener registered in
  it. Its reader is the one that \<^verbatim>\<open>#getMessageReader\<close> gives for the listener's service. A
  response with the listener's service id and call id whose payload that reader can decode
  makes the transport dispatch produce exactly one emission, under the caller's
  correlation id, with \<^verbatim>\<open>result: true\<close> and the decoded payload. When the reader cannot
  decode the payload, nothing is emitted and the error of the reader leaves through the
  dispatch. In both cases the listener is detached, and whatever the session does
  afterwards, a further response with that call id changes nothing. A response with
  another service id or call id leaves the listener registered, and what the dispatch
  appends to the trace comes from the other listeners only.
\<close>

theorem response_listener_fires_once:
  assumes "l \<in> set (on_serviceCallResponse (run (FoxgloveSocket lb ros2) inputs))"
  shows "fst (getMessageReader (run (FoxgloveSocket lb ros2) inputs) (IsService (rl_service l))) =
           Inr (rl_reader l) \<and>
         (scr_serviceId e = sv_id (rl_service l) \<and> scr_callId e = rl_callId l \<longrightarrow>
            trace (emit (run (FoxgloveSocket lb ros2) inputs) (ev_serviceCallResponse e)) =
              trace (run (FoxgloveSocket lb ros2) inputs) @
              [if can_readMessage lb (rl_reader l) (scr_data e)
               then ros_emit (rl_id l)
                      (Envelope (Some (Decoded (readMessage (rl_reader l) (scr_data e)))) True)
               else uncaught LibraryError] \<and>
            l \<notin> set (on_serviceCallResponse
                       (emit (run (FoxgloveSocket lb ros2) inputs) (ev_serviceCallResponse e))) \<and>
            (scr_callId e' = rl_callId l \<longrightarrow>
               emit (run (emit (run (FoxgloveSocket lb ros2) inputs) (ev_serviceCallResponse e)) later)
                    (ev_serviceCallResponse e') =
               run (emit (run (FoxgloveSocket lb ros2) inputs) (ev_serviceCallResponse e)) later)) \<and>
         (\<not> (scr_serviceId e = sv_id (rl_service l) \<and> scr_callId e = rl_callId l) \<longrightarrow>
            l \<in> set (on_serviceCallResponse
                       (emit (run (FoxgloveSocket lb ros2) inputs) (ev_serviceCallResponse e))) \<and>
            trace (emit (run (FoxgloveSocket lb ros2) inputs) (ev_serviceCallResponse e)) =
              trace (run (FoxgloveSocket lb ros2) inputs) @
              map (response_outcome lb e)
                (filter (response_key e)
                   (removeAll l (on_serviceCallResponse (run (FoxgloveSocket lb ros2) inputs)))))"
proof -
  define S where "S = run (FoxgloveSocket lb ros2) inputs"
  define S' where "S' = emit S (ev_serviceCallResponse e)"
  have l: "l \<in> set (on_serviceCallResponse S)" using assms by (simp add: S_def)
  have lb: "lib S = lb" by (simp add: S_def)
  have wf: "calls_wf (calls S)" unfolding S_def by (rule reachable_calls_wf)
  then have d: "distinct (map rl_callId (on_serviceCallResponse S))"
    and b: "\<forall>x \<in> set (on_serviceCallResponse S). rl_callId x < callId S"
    by (simp_all add: calls_wf_def calls_def list_all_iff)
  have S': "S' = S\<lparr>on_serviceCallResponse := filter (\<lambda>l. \<not> response_key e l) (on_serviceCallResponse S),
                   trace := trace S @
                     map (response_outcome lb e) (filter (response_key e) (on_serviceCallResponse S))\<rparr>"
    unfolding S'_def using emit_response_unique [OF d, of e] by (simp only: lb)
  have "readers_tied S" unfolding S_def by (rule reachable_tied)
  then have "map_of (messageReaders S) (codec_name (IsService (rl_service l))) = Some (rl_reader l)"
    using l by (simp add: readers_tied_def list_all_iff codec_name_def)
  then have tied: "fst (getMessageReader S (IsService (rl_service l))) = Inr (rl_reader l)"
    by (simp add: getMessageReader_cached)
  have hit: "trace S' = trace S @ [response_outcome lb e l] \<and> l \<notin> set (on_serviceCallResponse S') \<and>
             (scr_callId e' = rl_callId l \<longrightarrow>
                emit (run S' later) (ev_serviceCallResponse e') = run S' later)"
    if k: "response_key e l"
  proof -
    have f: "filter (response_key e) (on_serviceCallResponse S) = [l]"
      using d l k
    proof (rule filter_unique)
      fix x assume "response_key e x"
      then show "rl_callId x = rl_callId l" using k by (simp add: response_key_def)
    qed
    have r: "on_serviceCallResponse S' = filter (\<lambda>x. \<not> response_key e x) (on_serviceCallResponse S)"
      and c: "callId S' = callId S"
      by (simp_all add: S')
    have n: "\<forall>x \<in> set (on_serviceCallResponse S'). rl_callId x \<noteq> rl_callId l"
    proof
      fix x assume x: "x \<in> set (on_serviceCallResponse S')"
      then have xs: "x \<in> set (on_serviceCallResponse S)" and nk: "\<not> response_key e x"
        by (simp_all add: r)
      show "rl_callId x \<noteq> rl_callId l"
      proof
        assume "rl_callId x = rl_callId l"
        then have "x = l" using d xs l by (meson distinct_map inj_onD)
        then show False using nk k by simp
      qed
    qed
    have "no_listener_for (rl_callId l) (calls S')"
      using n b l c by (simp add: no_listener_for_def calls_def list_all_iff)
    with run_calls [of S' later] have "no_listener_for (rl_callId l) (calls (run S' later))"
      by (rule calls_steps_no_key)
    then have later: "\<forall>x \<in> set (on_serviceCallResponse (run S' later)). rl_callId x \<noteq> rl_callId l"
      by (simp add: no_listener_for_def calls_def list_all_iff)
    have "scr_callId e' = rl_callId l \<longrightarrow>
            emit (run S' later) (ev_serviceCallResponse e') = run S' later"
      using later no_key_no_emission [of "run S' later" e'] by metis
    moreover have "trace S' = trace S @ [response_outcome lb e l]"
      by (simp add: S' f)
    moreover have "l \<notin> set (on_serviceCallResponse S')"
      using k by (simp add: r)
    ultimately show ?thesis by blast
  qed
  have miss: "l \<in> set (on_serviceCallResponse S') \<and>
              trace S' = trace S @ map (response_outcome lb e)
                (filter (response_key e) (removeAll l (on_serviceCallResponse S)))"
    if k: "\<not> response_key e l"
  proof -
    have "filter (response_key e) (removeAll l (on_serviceCallResponse S)) =
          filter (response_key e) (on_serviceCallResponse S)"
      using k by (auto simp: removeAll_as_filter intro: filter_cong)
    then show ?thesis
      using l k by (simp add: S')
  qed
  show ?thesis
    using hit miss tied
    unfolding S'_def S_def response_key_def response_outcome_def response_result_def by blast
qed

theorem response_listener_fires_once_witness:
  "example_response_listener \<in>
     set (on_serviceCallResponse (run (FoxgloveSocket example_library True) one_call)) \<and>
   fst (getMessageReader (run (FoxgloveSocket example_library True) one_call)
          (IsService (rl_service example_response_listener))) =
     Inr (rl_reader example_response_listener) \<and>
   (scr_serviceId example_response = sv_id (rl_service example_response_listener) \<and>
    scr_callId example_response = rl_callId example_response_listener) \<and>
   can_readMessage example_library (rl_reader example_response_listener)
     (scr_data example_response) \<and>
   trace (emit (run (FoxgloveSocket example_library True) one_call)
            (ev_serviceCallResponse example_response)) =
     trace (run (FoxgloveSocket example_library True) one_call) @
     [ros_emit (rl_id example_response_listener)
        (Envelope (Some (Decoded (readMessage (rl_reader example_response_listener)
                                    (scr_data example_response)))) True)] \<and>
   emit (run (emit (run (FoxgloveSocket example_library True) one_call)
                (ev_serviceCallResponse example_response))
           [Send (verb ''call_service'' ''/add'' ''pkg/Msg''), EndOfTask])
        (ev_serviceCallResponse example_response) =
     run (emit (run (FoxgloveSocket example_library True) one_call)
            (ev_serviceCallResponse example_response))
       [Send (verb ''call_service'' ''/add'' ''pkg/Msg''), EndOfTask] \<and>
   \<not> (scr_serviceId other_response = sv_id (rl_service example_response_listener) \<and>
      scr_callId other_response = rl_callId example_response_listener) \<and>
   example_response_listener \<in>
     set (on_serviceCallResponse
            (emit (run (FoxgloveSocket example_library True) one_call)
               (ev_serviceCallResponse other_response)))"
proof -
  have h: "example_response_listener \<in>
             set (on_serviceCallResponse (run (FoxgloveSocket example_library True) one_call))"
    by code_simp
  have k: "scr_serviceId example_response = sv_id (rl_service example_response_listener) \<and>
           scr_callId example_response = rl_callId example_response_listener"
          "\<not> (scr_serviceId other_response = sv_id (rl_service example_response_listener) \<and>
              scr_callId other_response = rl_callId example_response_listener)"
    by (simp_all add: example_response_def other_response_def example_response_listener_def
        example_service_def)
  have v: "can_readMessage example_library (rl_reader example_response_listener)
             (scr_data example_response)"
    by (simp add: example_library_def example_response_def)
  show ?thesis
    using h k v
      response_listener_fires_once [OF h, of example_response example_response
        "[Send (verb ''call_service'' ''/add'' ''pkg/Msg''), EndOfTask]", unfolded if_P [OF v]]
      response_listener_fires_once [OF h, of other_response other_response "[]"]
    by blast
qed

text \<open>
  C4 as stated fails: a response with the key of a registered listener whose payload the
  reader cannot decode produces no emission. The listener is detached all the same, so a
  later response to the call with a payload that can be decoded is dropped too.
\<close>

theorem undecodable_response_emits_nothing:
  "map (\<lambda>l. (sv_id (rl_service l), rl_callId l))
     (on_serviceCallResponse (run (FoxgloveSocket example_library True) one_call)) = [(3, 0)] \<and>
   scr_serviceId undecodable_response = 3 \<and> scr_callId undecodable_response = 0 \<and>
   trace (run (FoxgloveSocket example_library True)
      (one_call @ [Emit (ev_serviceCallResponse undecodable_response), EndOfTask])) =
     [sendServiceCallRequest 3 0 ''cdr''
        (writeMessage (Ros2MessageWriter 0 (parse ''int64 a'' True)) ''{a: 1}''),
      uncaught LibraryError] \<and>
   on_serviceCallResponse (run (FoxgloveSocket example_library True)
      (one_call @ [Emit (ev_serviceCallResponse undecodable_response), EndOfTask])) = [] \<and>
   trace (run (FoxgloveSocket example_library True)
      (one_call @ [Emit (ev_serviceCallResponse undecodable_response), EndOfTask,
                   Emit (ev_serviceCallResponse example_response), EndOfTask])) =
     [sendServiceCallRequest 3 0 ''cdr''
        (writeMessage (Ros2MessageWriter 0 (parse ''int64 a'' True)) ''{a: 1}''),
      uncaught LibraryError]"
  by code_simp

section \<open>Failure and success listeners of one call\<close>

lemma emit_failure_keeps_responses:
  "on_serviceCallResponse (emit s (ev_serviceCallFailure f)) = on_serviceCallResponse s"
  by (simp add: emit_serviceCallFailure del: emit.simps)

lemma emit_response_keeps_failures:
  "on_serviceCallFailure (emit s (ev_serviceCallResponse r)) = on_serviceCallFailure s"
  by (simp add: emit_serviceCallResponse_registry)




text \<open>The same run with a payload that can be decoded: two emissions.\<close>

lemma two_emissions_for_one_call:
  "trace (run (FoxgloveSocket example_library True)
      (one_call @
       [Emit (ev_serviceCallFailure example_failure), EndOfTask,
        Emit (ev_serviceCallResponse example_response), EndOfTask])) =
   [sendServiceCallRequest 3 0 ''cdr''
      (writeMessage (Ros2MessageWriter 0 (parse ''int64 a'' True)) ''{a: 1}''),
    ros_emit ''call:1'' (Envelope (Some (FailureMessage ''no such service'')) False),
    ros_emit ''call:1''
      (Envelope (Some (Decoded (readMessage (Ros2MessageReader 1 (parse ''int64 sum'' True))
                                  [0, 1, 0, 0, 3, 0, 0, 0, 0, 0, 0, 0])))
         True)]"
  by code_simp

section \<open>The get-param pseudo-service\<close>

lemma getService_parameters [simp]:
  "on_parameterValues (getService s n k) = on_parameterValues s"
  "trace (getService s n k) = trace s"
  by (simp_all add: getService_def split: option.splits)

lemma send_getParam:
  assumes "m_op m = ''call_service''" and "m_type m = ''rosapi/GetParam''"
  shows "send s m = getService (getParam s m) (m_service m) m"
  using assms by (simp add: send_def callService_def callService_builtin_def)

text \<open>
  C8. A call_service of type \<^verbatim>\<open>rosapi/GetParam\<close> with name \<^verbatim>\<open>node:use_sim_time\<close> issues
  \<^verbatim>\<open>getParameters\<close> for \<^verbatim>\<open>node.use_sim_time\<close> under the call's correlation id. When a
  \<^verbatim>\<open>parameterValues\<close> event arrives whose first parameter has that name and the value
  \<^verbatim>\<open>true\<close> and whose id is the correlation id, the listeners registered before the call
  emit what they emit, then the call's listener emits once, \<^verbatim>\<open>{values: {value: "true"},
  result: true}\<close>, and is detached.
\<close>

theorem get_param_use_sim_time:
  assumes "m_op m = ''call_service''" and "m_type m = ''rosapi/GetParam''"
      and "a_name (m_args m) = ''node:use_sim_time''"
  shows "trace (send s m) = trace s @ [getParameters [''node.use_sim_time''] (m_id m)] \<and>
         (pv_parameters e = p # ps \<and> p_name p = ''node.use_sim_time'' \<and> p_value p = PBool True \<and>
          pv_id e = Some (m_id m) \<longrightarrow>
            trace (emit (send s m) (ev_parameterValues e)) =
              trace (send s m) @
              map (parameter_result e) (filter (parameter_key e) (on_parameterValues s)) @
              [ros_emit (m_id m) (Envelope (Some (ParamValue (Some ''true''))) True)] \<and>
            on_parameterValues (emit (send s m) (ev_parameterValues e)) =
              filter (\<lambda>l. \<not> parameter_key e l) (on_parameterValues s))"
proof -
  have n: "replace (a_name (m_args m)) CHR '':'' CHR ''.'' = ''node.use_sim_time''"
    by (simp add: assms(3))
  have t: "trace (send s m) = trace s @ [getParameters [''node.use_sim_time''] (m_id m)]"
    and l: "on_parameterValues (send s m) =
              on_parameterValues s @ [getParam_listener ''node.use_sim_time'' (m_id m)]"
    by (simp_all add: send_getParam [OF assms(1,2)] getParam_def n Let_def)
  have "trace (emit (send s m) (ev_parameterValues e)) =
              trace (send s m) @
              map (parameter_result e) (filter (parameter_key e) (on_parameterValues s)) @
              [ros_emit (m_id m) (Envelope (Some (ParamValue (Some ''true''))) True)] \<and>
        on_parameterValues (emit (send s m) (ev_parameterValues e)) =
              filter (\<lambda>l. \<not> parameter_key e l) (on_parameterValues s)"
    if "pv_parameters e = p # ps \<and> p_name p = ''node.use_sim_time'' \<and> p_value p = PBool True \<and>
        pv_id e = Some (m_id m)"
    using that by (simp add: emit_parameterValues l parameter_matches_def del: emit.simps)
  with t show ?thesis by blast
qed

theorem get_param_use_sim_time_witness:
  "m_op (verb ''call_service'' ''/rosapi/get_param'' ''rosapi/GetParam'') = ''call_service'' \<and>
   m_type (verb ''call_service'' ''/rosapi/get_param'' ''rosapi/GetParam'') = ''rosapi/GetParam'' \<and>
   a_name (m_args (verb ''call_service'' ''/rosapi/get_param'' ''rosapi/GetParam'')) =
     ''node:use_sim_time'' \<and>
   (pv_parameters example_parameters =
      \<lparr>p_name = ''node.use_sim_time'', p_value = PBool True\<rparr> # [] \<and>
    p_name \<lparr>p_name = ''node.use_sim_time'', p_value = PBool True\<rparr> = ''node.use_sim_time'' \<and>
    p_value \<lparr>p_name = ''node.use_sim_time'', p_value = PBool True\<rparr> = PBool True \<and>
    pv_id example_parameters =
      Some (m_id (verb ''call_service'' ''/rosapi/get_param'' ''rosapi/GetParam''))) \<and>
   trace (send (FoxgloveSocket example_library True) (verb ''call_service'' ''/rosapi/get_param'' ''rosapi/GetParam'')) =
     [getParameters [''node.use_sim_time''] ''call:1''] \<and>
   trace (emit (send (FoxgloveSocket example_library True)
                  (verb ''call_service'' ''/rosapi/get_param'' ''rosapi/GetParam''))
            (ev_parameterValues example_parameters)) =
     [getParameters [''node.use_sim_time''] ''call:1'',
      ros_emit ''call:1'' (Envelope (Some (ParamValue (Some ''true''))) True)] \<and>
   on_parameterValues
     (emit (send (FoxgloveSocket example_library True)
              (verb ''call_service'' ''/rosapi/get_param'' ''rosapi/GetParam''))
        (ev_parameterValues example_parameters)) = []"
proof -
  have h:
    "m_op (verb ''call_service'' ''/rosapi/get_param'' ''rosapi/GetParam'') = ''call_service''"
    "m_type (verb ''call_service'' ''/rosapi/get_param'' ''rosapi/GetParam'') = ''rosapi/GetParam''"
    "a_name (m_args (verb ''call_service'' ''/rosapi/get_param'' ''rosapi/GetParam'')) =
       ''node:use_sim_time''"
    by (simp_all add: verb_def example_args_def)
  have e:
    "pv_parameters example_parameters =
       \<lparr>p_name = ''node.use_sim_time'', p_value = PBool True\<rparr> # [] \<and>
     p_name \<lparr>p_name = ''node.use_sim_time'', p_value = PBool True\<rparr> = ''node.use_sim_time'' \<and>
     p_value \<lparr>p_name = ''node.use_sim_time'', p_value = PBool True\<rparr> = PBool True \<and>
     pv_id example_parameters =
       Some (m_id (verb ''call_service'' ''/rosapi/get_param'' ''rosapi/GetParam''))"
    by (simp add: example_parameters_def verb_def)
  have i: "m_id (verb ''call_service'' ''/rosapi/get_param'' ''rosapi/GetParam'') = ''call:1''"
    "trace (FoxgloveSocket example_library True) = []" "on_parameterValues (FoxgloveSocket example_library True) = []"
    by (simp_all add: verb_def FoxgloveSocket_def)
  show ?thesis
    using h e
      get_param_use_sim_time [OF h, of "FoxgloveSocket example_library True" example_parameters
        "\<lparr>p_name = ''node.use_sim_time'', p_value = PBool True\<rparr>" "[]"]
    by (simp add: i)
qed

section \<open>The directory along a run\<close>

lemma list_all_map_of:
  "distinct (map fst al) \<Longrightarrow>
   list_all (\<lambda>(k, v). P k v) al \<longleftrightarrow> (\<forall>k v. map_of al k = Some v \<longrightarrow> P k v)"
  by (auto simp: list_all_iff dest: map_of_SomeD)

lemma index_consistent_iff:
  "index_consistent ident nm byId byName \<longleftrightarrow>
     distinct (map fst byId) \<and> distinct (map fst byName) \<and>
     (\<forall>i x. map_of byId i = Some x \<longrightarrow> ident x = i \<and> map_of byName (nm x) = Some x) \<and>
     (\<forall>n x. map_of byName n = Some x \<longrightarrow> nm x = n \<and> map_of byId (ident x) = Some x)"
  unfolding index_consistent_def
  by (auto simp: list_all_map_of)

lemma index_consistent_add:
  assumes "index_consistent ident nm byId byName"
      and "keeps_pairing ident nm byId byName x"
  shows "index_consistent ident nm (AList.update (ident x) x byId) (AList.update (nm x) x byName)"
proof -
  have d: "distinct (map fst byId)" "distinct (map fst byName)"
    and a: "\<And>i y. map_of byId i = Some y \<Longrightarrow> ident y = i \<and> map_of byName (nm y) = Some y"
    and b: "\<And>n y. map_of byName n = Some y \<Longrightarrow> nm y = n \<and> map_of byId (ident y) = Some y"
    using assms(1) unfolding index_consistent_iff by blast+
  have p: "\<And>old. map_of byId (ident x) = Some old \<Longrightarrow> nm old = nm x"
    and q: "\<And>old. map_of byName (nm x) = Some old \<Longrightarrow> ident old = ident x"
    using assms(2) by (simp_all add: keeps_pairing_def split: option.splits)
  have A: "ident y = i \<and> map_of (AList.update (nm x) x byName) (nm y) = Some y"
    if "map_of (AList.update (ident x) x byId) i = Some y" for i y
  proof (cases "i = ident x")
    case True
    then have "y = x" using that by (simp add: update_conv')
    then show ?thesis using True by (simp add: update_conv')
  next
    case False
    then have y: "map_of byId i = Some y" using that by (simp add: update_conv')
    have "nm y \<noteq> nm x"
    proof
      assume "nm y = nm x"
      then have "map_of byName (nm x) = Some y" using a [OF y] by metis
      then have "ident y = ident x" by (rule q)
      then show False using a [OF y] False by metis
    qed
    then have "map_of (AList.update (nm x) x byName) (nm y) = map_of byName (nm y)"
      by (simp add: update_conv')
    then show ?thesis using a [OF y] by metis
  qed
  have B: "nm y = n \<and> map_of (AList.update (ident x) x byId) (ident y) = Some y"
    if "map_of (AList.update (nm x) x byName) n = Some y" for n y
  proof (cases "n = nm x")
    case True
    then have "y = x" using that by (simp add: update_conv')
    then show ?thesis using True by (simp add: update_conv')
  next
    case False
    then have y: "map_of byName n = Some y" using that by (simp add: update_conv')
    have "ident y \<noteq> ident x"
    proof
      assume "ident y = ident x"
      then have "map_of byId (ident x) = Some y" using b [OF y] by metis
      then have "nm y = nm x" by (rule p)
      then show False using b [OF y] False by metis
    qed
    then have "map_of (AList.update (ident x) x byId) (ident y) = map_of byId (ident y)"
      by (simp add: update_conv')
    then show ?thesis using b [OF y] by metis
  qed
  have dd: "distinct (map fst (AList.update (ident x) x byId))"
           "distinct (map fst (AList.update (nm x) x byName))"
    using d by (simp_all add: distinct_update)
  show ?thesis
    unfolding index_consistent_iff using dd A B by blast
qed

lemma index_inconsistent_add:
  assumes "index_consistent ident nm byId byName"
      and "\<not> keeps_pairing ident nm byId byName x"
  shows "\<not> index_consistent ident nm (AList.update (ident x) x byId) (AList.update (nm x) x byName)"
proof
  assume c: "index_consistent ident nm (AList.update (ident x) x byId) (AList.update (nm x) x byName)"
  have a: "\<And>i y. map_of byId i = Some y \<Longrightarrow> ident y = i \<and> map_of byName (nm y) = Some y"
    and b: "\<And>n y. map_of byName n = Some y \<Longrightarrow> nm y = n \<and> map_of byId (ident y) = Some y"
    using assms(1) unfolding index_consistent_iff by blast+
  have a': "\<And>i y. map_of (AList.update (ident x) x byId) i = Some y \<Longrightarrow>
              map_of (AList.update (nm x) x byName) (nm y) = Some y"
    and b': "\<And>n y. map_of (AList.update (nm x) x byName) n = Some y \<Longrightarrow>
              map_of (AList.update (ident x) x byId) (ident y) = Some y"
    using c unfolding index_consistent_iff by blast+
  from assms(2) consider
      (id_renamed) old where "map_of byId (ident x) = Some old" "nm old \<noteq> nm x"
    | (name_renumbered) old where "map_of byName (nm x) = Some old" "ident old \<noteq> ident x"
    by (auto simp: keeps_pairing_def split: option.splits)
  then show False
  proof cases
    case id_renamed
    have i: "ident old = ident x" and n: "map_of byName (nm old) = Some old"
      using a [OF id_renamed(1)] by simp_all
    have "map_of (AList.update (nm x) x byName) (nm old) = Some old"
      using n id_renamed(2) by (simp add: update_conv')
    from b' [OF this] have "map_of (AList.update (ident x) x byId) (ident x) = Some old"
      by (simp only: i)
    then have "old = x" by (simp add: update_conv')
    then show False using id_renamed(2) by simp
  next
    case name_renumbered
    have n: "nm old = nm x" and i: "map_of byId (ident old) = Some old"
      using b [OF name_renumbered(1)] by simp_all
    have "map_of (AList.update (ident x) x byId) (ident old) = Some old"
      using i name_renumbered(2) by (simp add: update_conv')
    from a' [OF this] have "map_of (AList.update (nm x) x byName) (nm x) = Some old"
      by (simp only: n)
    then have "old = x" by (simp add: update_conv')
    then show False using name_renumbered(2) by simp
  qed
qed

lemma index_consistent_remove:
  assumes "index_consistent ident nm byId byName"
      and "map_of byId i = Some x"
  shows "index_consistent ident nm (AList.delete (ident x) byId) (AList.delete (nm x) byName)"
  using assms unfolding index_consistent_iff
  by (auto simp: delete_conv' distinct_delete simp del: map_of_eq_Some_iff split: if_splits)
     (metis option.inject)+

lemma directory_consistent_cong:
  "directory s' = directory s \<Longrightarrow> directory_consistent s' = directory_consistent s"
  by (simp add: directory_consistent_def directory_def)

lemma index_consistent_unique:
  assumes "index_consistent ident nm byId byName"
  shows "distinct (map (\<lambda>e. nm (snd e)) byId) \<and> distinct (map (\<lambda>e. ident (snd e)) byName) \<and>
         set (map snd byId) = set (map snd byName)"
proof -
  have d: "distinct (map fst byId)" "distinct (map fst byName)"
    and a: "\<And>i x. (i, x) \<in> set byId \<Longrightarrow> ident x = i \<and> (nm x, x) \<in> set byName"
    and b: "\<And>n x. (n, x) \<in> set byName \<Longrightarrow> nm x = n \<and> (ident x, x) \<in> set byId"
    using assms unfolding index_consistent_iff by auto
  have di: "distinct byId" "distinct byName"
    using d by (auto simp: distinct_map)
  have "inj_on (\<lambda>e. nm (snd e)) (set byId)"
  proof (rule inj_onI)
    fix p q assume p: "p \<in> set byId" and q: "q \<in> set byId" and e: "nm (snd p) = nm (snd q)"
    obtain i x j y where pq: "p = (i, x)" "q = (j, y)" by (cases p, cases q) auto
    have "(nm x, x) \<in> set byName" "(nm x, y) \<in> set byName"
      using a [of i x] a [of j y] p q e pq by auto
    then have "x = y" using d(2) by (meson eq_key_imp_eq_value)
    moreover have "i = ident x" "j = ident y" using a [of i x] a [of j y] p q pq by auto
    ultimately show "p = q" using pq by simp
  qed
  moreover have "inj_on (\<lambda>e. ident (snd e)) (set byName)"
  proof (rule inj_onI)
    fix p q assume p: "p \<in> set byName" and q: "q \<in> set byName"
      and e: "ident (snd p) = ident (snd q)"
    obtain n x k y where pq: "p = (n, x)" "q = (k, y)" by (cases p, cases q) auto
    have "(ident x, x) \<in> set byId" "(ident x, y) \<in> set byId"
      using b [of n x] b [of k y] p q e pq by auto
    then have "x = y" using d(1) by (meson eq_key_imp_eq_value)
    moreover have "n = nm x" "k = nm y" using b [of n x] b [of k y] p q pq by auto
    ultimately show "p = q" using pq by simp
  qed
  moreover have "set (map snd byId) = set (map snd byName)"
    using a b by force
  ultimately show ?thesis using di by (simp add: distinct_map)
qed

lemma advertise_handler_Cons:
  "advertise_handler s (c # cs) = advertise_handler (advertise_handler s [c]) cs"
  "advertiseServices_handler s (v # vs) = advertiseServices_handler (advertiseServices_handler s [v]) vs"
  by (simp_all add: advertise_handler_def advertiseServices_handler_def)

lemma advertise_one_consistent:
  assumes "directory_consistent s"
      and "keeps_pairing ch_id ch_topic (channelsById s) (channelsByName s) c"
  shows "directory_consistent (advertise_handler s [c])"
  using assms index_consistent_add [of ch_id ch_topic "channelsById s" "channelsByName s" c]
  by (simp add: directory_consistent_def advertise_handler_def)

lemma advertise_service_consistent:
  assumes "directory_consistent s"
      and "keeps_pairing sv_id sv_name (servicesById s) (servicesByName s) v"
  shows "directory_consistent (advertiseServices_handler s [v])"
  using assms index_consistent_add [of sv_id sv_name "servicesById s" "servicesByName s" v]
  by (simp add: directory_consistent_def advertiseServices_handler_def)

lemma advertise_one_inconsistent:
  assumes "directory_consistent s"
      and "\<not> keeps_pairing ch_id ch_topic (channelsById s) (channelsByName s) c"
  shows "\<not> directory_consistent (emit s (ev_advertise [c]))"
proof -
  have "directory (emit s (ev_advertise [c])) = directory (advertise_handler s [c])"
    unfolding emit.simps by (rule foldl_view) simp
  then have "directory_consistent (emit s (ev_advertise [c])) =
             directory_consistent (advertise_handler s [c])"
    by (rule directory_consistent_cong)
  moreover have "\<not> directory_consistent (advertise_handler s [c])"
    using assms index_inconsistent_add [of ch_id ch_topic "channelsById s" "channelsByName s" c]
    by (simp add: directory_consistent_def advertise_handler_def)
  ultimately show ?thesis by simp
qed

lemma advertise_service_inconsistent:
  assumes "directory_consistent s"
      and "\<not> keeps_pairing sv_id sv_name (servicesById s) (servicesByName s) v"
  shows "\<not> directory_consistent (emit s (ev_advertiseServices [v]))"
proof -
  have "directory (emit s (ev_advertiseServices [v])) = directory (advertiseServices_handler s [v])"
    unfolding emit.simps by (rule foldl_view) simp
  then have "directory_consistent (emit s (ev_advertiseServices [v])) =
             directory_consistent (advertiseServices_handler s [v])"
    by (rule directory_consistent_cong)
  moreover have "\<not> directory_consistent (advertiseServices_handler s [v])"
    using assms index_inconsistent_add [of sv_id sv_name "servicesById s" "servicesByName s" v]
    by (simp add: directory_consistent_def advertiseServices_handler_def)
  ultimately show ?thesis by simp
qed

lemma advertise_handler_consistent:
  "pairing_kept_channels s cs \<Longrightarrow> directory_consistent s \<Longrightarrow>
   directory_consistent (advertise_handler s cs)"
proof (induction cs arbitrary: s)
  case Nil
  then show ?case by (simp add: advertise_handler_def)
next
  case (Cons c cs)
  have "directory_consistent (advertise_handler s [c])"
    using Cons.prems by (auto intro: advertise_one_consistent)
  moreover have "pairing_kept_channels (advertise_handler s [c]) cs"
    using Cons.prems by simp
  ultimately show ?case
    by (simp only: advertise_handler_Cons(1) [of s c cs] Cons.IH)
qed

lemma advertiseServices_handler_consistent:
  "pairing_kept_services s vs \<Longrightarrow> directory_consistent s \<Longrightarrow>
   directory_consistent (advertiseServices_handler s vs)"
proof (induction vs arbitrary: s)
  case Nil
  then show ?case by (simp add: advertiseServices_handler_def)
next
  case (Cons v vs)
  have "directory_consistent (advertiseServices_handler s [v])"
    using Cons.prems by (auto intro: advertise_service_consistent)
  moreover have "pairing_kept_services (advertiseServices_handler s [v]) vs"
    using Cons.prems by simp
  ultimately show ?case
    by (simp only: advertise_handler_Cons(2) [of s v vs] Cons.IH)
qed

lemma unadvertise_handler_consistent:
  "directory_consistent s \<Longrightarrow> directory_consistent (unadvertise_handler s ids)"
proof (induction ids arbitrary: s)
  case Nil
  then show ?case by (simp add: unadvertise_handler_def)
next
  case (Cons i ids)
  define s1 where "s1 =
    (case map_of (channelsById s) i of
       Some channel \<Rightarrow>
         s\<lparr>channelsById := AList.delete (ch_id channel) (channelsById s),
           channelsByName := AList.delete (ch_topic channel) (channelsByName s)\<rparr>
     | None \<Rightarrow> s)"
  have u: "unadvertise_handler s (i # ids) = unadvertise_handler s1 ids"
    by (simp add: unadvertise_handler_def s1_def)
  have "directory_consistent s1"
  proof (cases "map_of (channelsById s) i")
    case None
    then show ?thesis using Cons.prems by (simp add: s1_def)
  next
    case (Some c)
    then show ?thesis
      using Cons.prems index_consistent_remove [of ch_id ch_topic "channelsById s" "channelsByName s" i c]
      by (simp add: s1_def directory_consistent_def)
  qed
  then show ?case unfolding u by (rule Cons.IH)
qed

lemma unadvertiseServices_handler_consistent:
  "directory_consistent s \<Longrightarrow> directory_consistent (unadvertiseServices_handler s ids)"
proof (induction ids arbitrary: s)
  case Nil
  then show ?case by (simp add: unadvertiseServices_handler_def)
next
  case (Cons i ids)
  define s1 where "s1 =
    (case map_of (servicesById s) i of
       Some service \<Rightarrow>
         s\<lparr>servicesById := AList.delete (sv_id service) (servicesById s),
           servicesByName := AList.delete (sv_name service) (servicesByName s)\<rparr>
     | None \<Rightarrow> s)"
  have u: "unadvertiseServices_handler s (i # ids) = unadvertiseServices_handler s1 ids"
    by (simp add: unadvertiseServices_handler_def s1_def)
  have "directory_consistent s1"
  proof (cases "map_of (servicesById s) i")
    case None
    then show ?thesis using Cons.prems by (simp add: s1_def)
  next
    case (Some v)
    then show ?thesis
      using Cons.prems index_consistent_remove [of sv_id sv_name "servicesById s" "servicesByName s" i v]
      by (simp add: s1_def directory_consistent_def)
  qed
  then show ?case unfolding u by (rule Cons.IH)
qed

lemma emit_directory_other:
  assumes "\<And>cs. e \<noteq> ev_advertise cs" "\<And>ids. e \<noteq> ev_unadvertise ids"
          "\<And>vs. e \<noteq> ev_advertiseServices vs" "\<And>ids. e \<noteq> ev_unadvertiseServices ids"
  shows "directory (emit s e) = directory s"
proof (cases e)
  case (ev_serviceCallResponse r)
  then show ?thesis by simp
next
  case (ev_serviceCallFailure f)
  show ?thesis unfolding ev_serviceCallFailure emit.simps by (rule foldl_view) simp
next
  case (ev_parameterValues p)
  show ?thesis unfolding ev_parameterValues emit.simps by (rule foldl_view) simp
next
  case (ev_connectionGraphUpdate g)
  show ?thesis unfolding ev_connectionGraphUpdate emit.simps by (rule foldl_view) simp
next
  case (ev_message d)
  then show ?thesis by simp
qed (use assms in \<open>simp_all add: directory_def\<close>)

lemma emit_consistent:
  assumes "admissible s (Emit e)" and "directory_consistent s"
  shows "directory_consistent (emit s e)"
proof (cases e)
  case (ev_advertise cs)
  have "directory (emit s e) = directory (advertise_handler s cs)"
    unfolding ev_advertise emit.simps by (rule foldl_view) simp
  then have "directory_consistent (emit s e) = directory_consistent (advertise_handler s cs)"
    by (rule directory_consistent_cong)
  moreover have "directory_consistent (advertise_handler s cs)"
    using assms ev_advertise by (simp add: advertise_handler_consistent)
  ultimately show ?thesis by simp
next
  case (ev_unadvertise ids)
  then show ?thesis using assms(2) by (simp add: unadvertise_handler_consistent)
next
  case (ev_advertiseServices vs)
  have "directory (emit s e) = directory (advertiseServices_handler s vs)"
    unfolding ev_advertiseServices emit.simps by (rule foldl_view) simp
  then have "directory_consistent (emit s e) = directory_consistent (advertiseServices_handler s vs)"
    by (rule directory_consistent_cong)
  moreover have "directory_consistent (advertiseServices_handler s vs)"
    using assms ev_advertiseServices by (simp add: advertiseServices_handler_consistent)
  ultimately show ?thesis by simp
next
  case (ev_unadvertiseServices ids)
  then show ?thesis using assms(2) by (simp add: unadvertiseServices_handler_consistent)
next
  case (ev_message d)
  have "directory (emit s e) = directory s"
    by (rule emit_directory_other) (simp_all add: ev_message)
  from directory_consistent_cong [OF this] assms(2) show ?thesis by simp
next
  case (ev_serviceCallResponse r)
  have "directory (emit s e) = directory s"
    by (rule emit_directory_other) (simp_all add: ev_serviceCallResponse)
  from directory_consistent_cong [OF this] assms(2) show ?thesis by simp
next
  case (ev_serviceCallFailure f)
  have "directory (emit s e) = directory s"
    by (rule emit_directory_other) (simp_all add: ev_serviceCallFailure)
  from directory_consistent_cong [OF this] assms(2) show ?thesis by simp
next
  case (ev_parameterValues p)
  have "directory (emit s e) = directory s"
    by (rule emit_directory_other) (simp_all add: ev_parameterValues)
  from directory_consistent_cong [OF this] assms(2) show ?thesis by simp
next
  case (ev_connectionGraphUpdate g)
  have "directory (emit s e) = directory s"
    by (rule emit_directory_other) (simp_all add: ev_connectionGraphUpdate)
  from directory_consistent_cong [OF this] assms(2) show ?thesis by simp
next
  case ev_open
  have "directory (emit s e) = directory s"
    by (rule emit_directory_other) (simp_all add: ev_open)
  from directory_consistent_cong [OF this] assms(2) show ?thesis by simp
next
  case (ev_close c)
  have "directory (emit s e) = directory s"
    by (rule emit_directory_other) (simp_all add: ev_close)
  from directory_consistent_cong [OF this] assms(2) show ?thesis by simp
next
  case (ev_error c)
  have "directory (emit s e) = directory s"
    by (rule emit_directory_other) (simp_all add: ev_error)
  from directory_consistent_cong [OF this] assms(2) show ?thesis by simp
qed

lemma step_consistent:
  assumes "admissible s i" and "directory_consistent s"
  shows "directory_consistent (step s i)"
proof (cases i)
  case (Send m)
  then show ?thesis using assms(2) directory_consistent_cong [of "send s m" s] by simp
next
  case (Emit e)
  then show ?thesis using assms emit_consistent by simp
next
  case Close
  then show ?thesis using assms(2) directory_consistent_cong [of "close s" s] by simp
next
  case EndOfTask
  then show ?thesis using assms(2) directory_consistent_cong [of "run_microtasks s" s] by simp
qed

lemma run_consistent:
  "retracts_first s inputs \<Longrightarrow> directory_consistent s \<Longrightarrow> directory_consistent (run s inputs)"
proof (induction inputs arbitrary: s)
  case Nil
  then show ?case by (simp add: run_def)
next
  case (Cons i inputs)
  have "directory_consistent (step s i)"
    using Cons.prems by (auto intro: step_consistent)
  moreover have "retracts_first (step s i) inputs"
    using Cons.prems by simp
  ultimately have "directory_consistent (run (step s i) inputs)"
    by (rule Cons.IH [rotated])
  then show ?case by (simp add: run_def)
qed

text \<open>
  C2, as the code has it. The advertise handlers only write the new entry under its id and
  under its name; they remove nothing. The indices stay consistent in every run in which
  the peer never advertises an id that the directory holds under another name, nor a name
  that the directory holds under another id; an entry may be advertised again under its
  own id and name, and then replaces the old one in both indices. In such a run both
  indices hold the same entries, no two entries of the id index share a name, and no two
  entries of the name index share an id. Verbs, microtasks and the other events leave the
  directory alone, and retractions keep it consistent. The condition cannot be weakened:
  an advertisement of one entry that breaks it makes a consistent directory inconsistent.
\<close>

theorem directory_consistent_if_peer_retracts_first:
  assumes "retracts_first (FoxgloveSocket lb ros2) inputs"
  shows "directory_consistent (run (FoxgloveSocket lb ros2) inputs) \<and>
         distinct (map fst (channelsById (run (FoxgloveSocket lb ros2) inputs))) \<and>
         distinct (map (\<lambda>e. ch_topic (snd e)) (channelsById (run (FoxgloveSocket lb ros2) inputs))) \<and>
         distinct (map (\<lambda>e. ch_id (snd e)) (channelsByName (run (FoxgloveSocket lb ros2) inputs))) \<and>
         set (map snd (channelsById (run (FoxgloveSocket lb ros2) inputs))) =
           set (map snd (channelsByName (run (FoxgloveSocket lb ros2) inputs))) \<and>
         distinct (map fst (servicesById (run (FoxgloveSocket lb ros2) inputs))) \<and>
         distinct (map (\<lambda>e. sv_name (snd e)) (servicesById (run (FoxgloveSocket lb ros2) inputs))) \<and>
         distinct (map (\<lambda>e. sv_id (snd e)) (servicesByName (run (FoxgloveSocket lb ros2) inputs))) \<and>
         set (map snd (servicesById (run (FoxgloveSocket lb ros2) inputs))) =
           set (map snd (servicesByName (run (FoxgloveSocket lb ros2) inputs))) \<and>
         (directory_consistent s \<and>
          \<not> keeps_pairing ch_id ch_topic (channelsById s) (channelsByName s) c \<longrightarrow>
            \<not> directory_consistent (emit s (ev_advertise [c]))) \<and>
         (directory_consistent s \<and>
          \<not> keeps_pairing sv_id sv_name (servicesById s) (servicesByName s) v \<longrightarrow>
            \<not> directory_consistent (emit s (ev_advertiseServices [v])))"
proof -
  have "directory_consistent (FoxgloveSocket lb ros2)"
    by (simp add: directory_consistent_def index_consistent_def FoxgloveSocket_def)
  with assms have c: "directory_consistent (run (FoxgloveSocket lb ros2) inputs)"
    by (rule run_consistent)
  then have i: "index_consistent ch_id ch_topic (channelsById (run (FoxgloveSocket lb ros2) inputs))
                  (channelsByName (run (FoxgloveSocket lb ros2) inputs))"
      "index_consistent sv_id sv_name (servicesById (run (FoxgloveSocket lb ros2) inputs))
                  (servicesByName (run (FoxgloveSocket lb ros2) inputs))"
    by (simp_all add: directory_consistent_def)
  have "directory_consistent (run (FoxgloveSocket lb ros2) inputs) \<and>
         distinct (map fst (channelsById (run (FoxgloveSocket lb ros2) inputs))) \<and>
         distinct (map (\<lambda>e. ch_topic (snd e)) (channelsById (run (FoxgloveSocket lb ros2) inputs))) \<and>
         distinct (map (\<lambda>e. ch_id (snd e)) (channelsByName (run (FoxgloveSocket lb ros2) inputs))) \<and>
         set (map snd (channelsById (run (FoxgloveSocket lb ros2) inputs))) =
           set (map snd (channelsByName (run (FoxgloveSocket lb ros2) inputs))) \<and>
         distinct (map fst (servicesById (run (FoxgloveSocket lb ros2) inputs))) \<and>
         distinct (map (\<lambda>e. sv_name (snd e)) (servicesById (run (FoxgloveSocket lb ros2) inputs))) \<and>
         distinct (map (\<lambda>e. sv_id (snd e)) (servicesByName (run (FoxgloveSocket lb ros2) inputs))) \<and>
         set (map snd (servicesById (run (FoxgloveSocket lb ros2) inputs))) =
           set (map snd (servicesByName (run (FoxgloveSocket lb ros2) inputs)))"
    using c index_consistent_unique [OF i(1)] index_consistent_unique [OF i(2)] i
    by (simp add: index_consistent_def)
  then show ?thesis
    using advertise_one_inconsistent [of s c] advertise_service_inconsistent [of s v] by blast
qed

theorem directory_consistent_if_peer_retracts_first_witness:
  "retracts_first (FoxgloveSocket example_library True)
     [Emit (ev_advertise [example_channel]), Emit (ev_advertiseServices [example_service]),
      Emit (ev_advertise [same_id_and_name]), Emit (ev_unadvertise [7]),
      Emit (ev_advertise [same_name_new_id])] \<and>
   directory_consistent (run (FoxgloveSocket example_library True)
     [Emit (ev_advertise [example_channel]), Emit (ev_advertiseServices [example_service]),
      Emit (ev_advertise [same_id_and_name]), Emit (ev_unadvertise [7]),
      Emit (ev_advertise [same_name_new_id])]) \<and>
   channelsByName (run (FoxgloveSocket example_library True)
     [Emit (ev_advertise [example_channel]), Emit (ev_advertiseServices [example_service]),
      Emit (ev_advertise [same_id_and_name])]) = [(''/t'', same_id_and_name)] \<and>
   map fst (channelsById (run (FoxgloveSocket example_library True)
     [Emit (ev_advertise [example_channel]), Emit (ev_advertiseServices [example_service]),
      Emit (ev_advertise [same_id_and_name]), Emit (ev_unadvertise [7]),
      Emit (ev_advertise [same_name_new_id])])) = [8] \<and>
   directory_consistent
     (run (FoxgloveSocket example_library True)
        [Emit (ev_advertise [example_channel]), Emit (ev_advertiseServices [example_service])]) \<and>
   \<not> keeps_pairing ch_id ch_topic
       (channelsById (run (FoxgloveSocket example_library True)
          [Emit (ev_advertise [example_channel]), Emit (ev_advertiseServices [example_service])]))
       (channelsByName (run (FoxgloveSocket example_library True)
          [Emit (ev_advertise [example_channel]), Emit (ev_advertiseServices [example_service])]))
       same_name_new_id \<and>
   \<not> directory_consistent
       (emit (run (FoxgloveSocket example_library True)
                [Emit (ev_advertise [example_channel]), Emit (ev_advertiseServices [example_service])])
          (ev_advertise [same_name_new_id])) \<and>
   \<not> keeps_pairing sv_id sv_name
       (servicesById (run (FoxgloveSocket example_library True)
          [Emit (ev_advertise [example_channel]), Emit (ev_advertiseServices [example_service])]))
       (servicesByName (run (FoxgloveSocket example_library True)
          [Emit (ev_advertise [example_channel]), Emit (ev_advertiseServices [example_service])]))
       (example_service\<lparr>sv_name := ''/sum''\<rparr>) \<and>
   \<not> directory_consistent
       (emit (run (FoxgloveSocket example_library True)
                [Emit (ev_advertise [example_channel]), Emit (ev_advertiseServices [example_service])])
          (ev_advertiseServices [example_service\<lparr>sv_name := ''/sum''\<rparr>]))"
proof -
  have h: "retracts_first (FoxgloveSocket example_library True)
     [Emit (ev_advertise [example_channel]), Emit (ev_advertiseServices [example_service]),
      Emit (ev_advertise [same_id_and_name]), Emit (ev_unadvertise [7]),
      Emit (ev_advertise [same_name_new_id])]"
    by code_simp
  have v: "map fst (channelsById (run (FoxgloveSocket example_library True)
     [Emit (ev_advertise [example_channel]), Emit (ev_advertiseServices [example_service]),
      Emit (ev_advertise [same_id_and_name]), Emit (ev_unadvertise [7]),
      Emit (ev_advertise [same_name_new_id])])) = [8]"
    "channelsByName (run (FoxgloveSocket example_library True)
     [Emit (ev_advertise [example_channel]), Emit (ev_advertiseServices [example_service]),
      Emit (ev_advertise [same_id_and_name])]) = [(''/t'', same_id_and_name)]"
    by code_simp+
  have g: "retracts_first (FoxgloveSocket example_library True)
     [Emit (ev_advertise [example_channel]), Emit (ev_advertiseServices [example_service])]"
    "\<not> keeps_pairing ch_id ch_topic
       (channelsById (run (FoxgloveSocket example_library True)
          [Emit (ev_advertise [example_channel]), Emit (ev_advertiseServices [example_service])]))
       (channelsByName (run (FoxgloveSocket example_library True)
          [Emit (ev_advertise [example_channel]), Emit (ev_advertiseServices [example_service])]))
       same_name_new_id"
    "\<not> keeps_pairing sv_id sv_name
       (servicesById (run (FoxgloveSocket example_library True)
          [Emit (ev_advertise [example_channel]), Emit (ev_advertiseServices [example_service])]))
       (servicesByName (run (FoxgloveSocket example_library True)
          [Emit (ev_advertise [example_channel]), Emit (ev_advertiseServices [example_service])]))
       (example_service\<lparr>sv_name := ''/sum''\<rparr>)"
    by code_simp+
  show ?thesis
    using h v g(2,3)
      directory_consistent_if_peer_retracts_first [OF h,
        of "run (FoxgloveSocket example_library True)
              [Emit (ev_advertise [example_channel]), Emit (ev_advertiseServices [example_service])]"
           same_name_new_id "example_service\<lparr>sv_name := ''/sum''\<rparr>"]
      directory_consistent_if_peer_retracts_first [OF g(1),
        of "run (FoxgloveSocket example_library True)
              [Emit (ev_advertise [example_channel]), Emit (ev_advertiseServices [example_service])]"
           same_name_new_id "example_service\<lparr>sv_name := ''/sum''\<rparr>"]
    by blast
qed

text \<open>
  C2 as stated fails. When a name is advertised again under a new id, the id index keeps
  both entries while the name index holds the new one; when the old id is then retracted,
  the name disappears from the name index although the channel with the new id is still
  advertised. When an id is advertised again under a new name, the name index keeps both
  names for the one id.
\<close>

theorem directory_inconsistent_after_readvertisement:
  "\<not> directory_consistent (run (FoxgloveSocket example_library True)
       [Emit (ev_advertise [example_channel]), Emit (ev_advertise [same_name_new_id])]) \<and>
   map (\<lambda>e. (ch_id (snd e), ch_topic (snd e)))
     (channelsById (run (FoxgloveSocket example_library True)
       [Emit (ev_advertise [example_channel]), Emit (ev_advertise [same_name_new_id])])) =
     [(7, ''/t''), (8, ''/t'')] \<and>
   map fst (channelsById (run (FoxgloveSocket example_library True)
       [Emit (ev_advertise [example_channel]), Emit (ev_advertise [same_name_new_id]),
        Emit (ev_unadvertise [7])])) = [8] \<and>
   channelsByName (run (FoxgloveSocket example_library True)
       [Emit (ev_advertise [example_channel]), Emit (ev_advertise [same_name_new_id]),
        Emit (ev_unadvertise [7])]) = [] \<and>
   \<not> directory_consistent (run (FoxgloveSocket example_library True)
       [Emit (ev_advertise [example_channel]), Emit (ev_advertise [same_id_new_name])]) \<and>
   map (\<lambda>e. (ch_id (snd e), ch_topic (snd e)))
     (channelsByName (run (FoxgloveSocket example_library True)
       [Emit (ev_advertise [example_channel]), Emit (ev_advertise [same_id_new_name])])) =
     [(7, ''/t''), (7, ''/u'')]"
  by code_simp

section \<open>Lookup by name\<close>

lemma channel_named_Some:
  "channel_named channels name = Some channel \<Longrightarrow> ch_topic channel = name \<and> channel \<in> set channels"
  by (auto simp: channel_named_def find_Some_iff)

lemma service_named_Some:
  "service_named services name = Some service \<Longrightarrow> sv_name service = name \<and> service \<in> set services"
  by (auto simp: service_named_def find_Some_iff)

lemma getChannel_listener_hit:
  "channel_named cs (fst l) = Some c \<Longrightarrow> getChannel_listener cs s l =
     s\<lparr>on_advertise := filter (\<lambda>y. y \<noteq> l) (on_advertise s),
       microtasks := microtasks s @ [channel_resolved (snd l) c]\<rparr>"
  by (simp add: getChannel_listener_def channel_named_def removeAll_as_filter)

lemma getChannel_listener_miss:
  "channel_named cs (fst l) = None \<Longrightarrow> getChannel_listener cs s l = s"
  by (simp add: getChannel_listener_def channel_named_def)

lemma foldl_getChannel_listener:
  "foldl (getChannel_listener cs) s ls =
     s\<lparr>on_advertise :=
         filter (\<lambda>x. x \<notin> set (filter (\<lambda>l. channel_named cs (fst l) \<noteq> None) ls)) (on_advertise s),
       microtasks := microtasks s @
         List.map_filter (\<lambda>l. map_option (channel_resolved (snd l)) (channel_named cs (fst l))) ls\<rparr>"
proof (induction ls arbitrary: s)
  case Nil
  then show ?case by (simp add: List.map_filter_simps)
next
  case (Cons l ls)
  show ?case
  proof (cases "channel_named cs (fst l)")
    case None
    then show ?thesis
      by (simp only: foldl_Cons Cons.IH getChannel_listener_miss [OF None])
         (simp add: List.map_filter_simps)
  next
    case (Some c)
    then have k: "(\<lambda>l. channel_named cs (fst l) \<noteq> None) l" by simp
    show ?thesis
      using Some
      by (simp only: foldl_Cons Cons.IH getChannel_listener_hit [OF Some])
         (simp add: List.map_filter_simps
            filter_not_in_Cons [of "\<lambda>l. channel_named cs (fst l) \<noteq> None", OF k])
  qed
qed

lemma getService_listener_hit:
  "service_named vs (fst l) = Some v \<Longrightarrow> getService_listener vs s l =
     s\<lparr>on_advertiseServices := filter (\<lambda>y. y \<noteq> l) (on_advertiseServices s),
       microtasks := microtasks s @ [service_resolved (snd l) v]\<rparr>"
  by (simp add: getService_listener_def service_named_def removeAll_as_filter)

lemma getService_listener_miss:
  "service_named vs (fst l) = None \<Longrightarrow> getService_listener vs s l = s"
  by (simp add: getService_listener_def service_named_def)

lemma foldl_getService_listener:
  "foldl (getService_listener vs) s ls =
     s\<lparr>on_advertiseServices :=
         filter (\<lambda>x. x \<notin> set (filter (\<lambda>l. service_named vs (fst l) \<noteq> None) ls))
           (on_advertiseServices s),
       microtasks := microtasks s @
         List.map_filter (\<lambda>l. map_option (service_resolved (snd l)) (service_named vs (fst l))) ls\<rparr>"
proof (induction ls arbitrary: s)
  case Nil
  then show ?case by (simp add: List.map_filter_simps)
next
  case (Cons l ls)
  show ?case
  proof (cases "service_named vs (fst l)")
    case None
    then show ?thesis
      by (simp only: foldl_Cons Cons.IH getService_listener_miss [OF None])
         (simp add: List.map_filter_simps)
  next
    case (Some v)
    then have k: "(\<lambda>l. service_named vs (fst l) \<noteq> None) l" by simp
    show ?thesis
      using Some
      by (simp only: foldl_Cons Cons.IH getService_listener_hit [OF Some])
         (simp add: List.map_filter_simps
            filter_not_in_Cons [of "\<lambda>l. service_named vs (fst l) \<noteq> None", OF k])
  qed
qed

lemma handlers_keep_waiters:
  "on_advertise (advertise_handler s cs) = on_advertise s"
  "microtasks (advertise_handler s cs) = microtasks s"
  "on_advertiseServices (advertiseServices_handler s vs) = on_advertiseServices s"
  "microtasks (advertiseServices_handler s vs) = microtasks s"
  unfolding advertise_handler_def advertiseServices_handler_def
  by (rule foldl_view, simp)+

lemma emit_advertise_waiters:
  "on_advertise (emit s (ev_advertise channels)) =
     filter (\<lambda>l. channel_named channels (fst l) = None) (on_advertise s)"
  "microtasks (emit s (ev_advertise channels)) =
     microtasks s @
     List.map_filter (\<lambda>l. map_option (channel_resolved (snd l)) (channel_named channels (fst l)))
       (on_advertise s)"
proof -
  have "filter (\<lambda>x. x \<notin> set (filter (\<lambda>l. channel_named channels (fst l) \<noteq> None) (on_advertise s)))
          (on_advertise s) =
        filter (\<lambda>l. channel_named channels (fst l) = None) (on_advertise s)"
    by (rule filter_cong) auto
  then show "on_advertise (emit s (ev_advertise channels)) =
     filter (\<lambda>l. channel_named channels (fst l) = None) (on_advertise s)"
    by (simp only: emit.simps foldl_getChannel_listener handlers_keep_waiters) simp
  show "microtasks (emit s (ev_advertise channels)) =
     microtasks s @
     List.map_filter (\<lambda>l. map_option (channel_resolved (snd l)) (channel_named channels (fst l)))
       (on_advertise s)"
    by (simp only: emit.simps foldl_getChannel_listener handlers_keep_waiters) simp
qed

lemma emit_advertiseServices_waiters:
  "on_advertiseServices (emit s (ev_advertiseServices services)) =
     filter (\<lambda>l. service_named services (fst l) = None) (on_advertiseServices s)"
  "microtasks (emit s (ev_advertiseServices services)) =
     microtasks s @
     List.map_filter (\<lambda>l. map_option (service_resolved (snd l)) (service_named services (fst l)))
       (on_advertiseServices s)"
proof -
  have "filter (\<lambda>x. x \<notin> set (filter (\<lambda>l. service_named services (fst l) \<noteq> None)
                                 (on_advertiseServices s)))
          (on_advertiseServices s) =
        filter (\<lambda>l. service_named services (fst l) = None) (on_advertiseServices s)"
    by (rule filter_cong) auto
  then show "on_advertiseServices (emit s (ev_advertiseServices services)) =
     filter (\<lambda>l. service_named services (fst l) = None) (on_advertiseServices s)"
    by (simp only: emit.simps foldl_getService_listener handlers_keep_waiters) simp
  show "microtasks (emit s (ev_advertiseServices services)) =
     microtasks s @
     List.map_filter (\<lambda>l. map_option (service_resolved (snd l)) (service_named services (fst l)))
       (on_advertiseServices s)"
    by (simp only: emit.simps foldl_getService_listener handlers_keep_waiters) simp
qed

lemma find_snoc:
  "find P (xs @ [x]) = (case find P xs of Some y \<Rightarrow> Some y | None \<Rightarrow> if P x then Some x else None)"
  by (induction xs) simp_all

lemma advertise_handler_index:
  "map_of (channelsByName (advertise_handler s cs)) n =
     (case channel_named (rev cs) n of Some c \<Rightarrow> Some c | None \<Rightarrow> map_of (channelsByName s) n)"
proof (induction cs arbitrary: s)
  case Nil
  show ?case by (simp add: advertise_handler_def channel_named_def)
next
  case (Cons c cs)
  show ?case
    unfolding advertise_handler_Cons(1) [of s c cs] Cons.IH
    by (simp add: channel_named_def find_snoc advertise_handler_def update_conv'
        split: option.splits)
qed

lemma advertiseServices_handler_index:
  "map_of (servicesByName (advertiseServices_handler s vs)) n =
     (case service_named (rev vs) n of Some v \<Rightarrow> Some v | None \<Rightarrow> map_of (servicesByName s) n)"
proof (induction vs arbitrary: s)
  case Nil
  show ?case by (simp add: advertiseServices_handler_def service_named_def)
next
  case (Cons v vs)
  show ?case
    unfolding advertise_handler_Cons(2) [of s v vs] Cons.IH
    by (simp add: service_named_def find_snoc advertiseServices_handler_def update_conv'
        split: option.splits)
qed

lemma directory_channelsByName:
  "directory s' = directory s \<Longrightarrow> channelsByName s' = channelsByName s"
  "directory s' = directory s \<Longrightarrow> servicesByName s' = servicesByName s"
  by (simp_all add: directory_def)

lemma emit_advertise_index:
  "map_of (channelsByName (emit s (ev_advertise channels))) name =
     (case channel_named (rev channels) name of
        Some c \<Rightarrow> Some c
      | None \<Rightarrow> map_of (channelsByName s) name)"
proof -
  have "directory (emit s (ev_advertise channels)) = directory (advertise_handler s channels)"
    unfolding emit.simps by (rule foldl_view) simp
  then have "channelsByName (emit s (ev_advertise channels)) =
             channelsByName (advertise_handler s channels)"
    by (rule directory_channelsByName(1))
  then show ?thesis by (simp only: advertise_handler_index)
qed

lemma emit_advertiseServices_index:
  "map_of (servicesByName (emit s (ev_advertiseServices services))) name =
     (case service_named (rev services) name of
        Some v \<Rightarrow> Some v
      | None \<Rightarrow> map_of (servicesByName s) name)"
proof -
  have "directory (emit s (ev_advertiseServices services)) =
        directory (advertiseServices_handler s services)"
    unfolding emit.simps by (rule foldl_view) simp
  then have "servicesByName (emit s (ev_advertiseServices services)) =
             servicesByName (advertiseServices_handler s services)"
    by (rule directory_channelsByName(2))
  then show ?thesis by (simp only: advertiseServices_handler_index)
qed

lemma emit_unadvertise_index:
  "map_of (channelsByName (emit s (ev_unadvertise [i]))) name =
     (case map_of (channelsById s) i of
        Some c \<Rightarrow> if ch_topic c = name then None else map_of (channelsByName s) name
      | None \<Rightarrow> map_of (channelsByName s) name)"
  "emit s (ev_unadvertise (i # ids)) = emit (emit s (ev_unadvertise [i])) (ev_unadvertise ids)"
  by (simp_all add: unadvertise_handler_def delete_conv' split: option.splits)

lemma emit_unadvertiseServices_index:
  "map_of (servicesByName (emit s (ev_unadvertiseServices [i]))) name =
     (case map_of (servicesById s) i of
        Some v \<Rightarrow> if sv_name v = name then None else map_of (servicesByName s) name
      | None \<Rightarrow> map_of (servicesByName s) name)"
  "emit s (ev_unadvertiseServices (i # ids)) =
     emit (emit s (ev_unadvertiseServices [i])) (ev_unadvertiseServices ids)"
  by (simp_all add: unadvertiseServices_handler_def delete_conv' split: option.splits)

lemma handlers_keep_other_index:
  "channelsByName (advertiseServices_handler s vs) = channelsByName s"
  "channelsByName (unadvertiseServices_handler s ids) = channelsByName s"
  "servicesByName (advertise_handler s cs) = servicesByName s"
  "servicesByName (unadvertise_handler s ids) = servicesByName s"
  unfolding advertise_handler_def advertiseServices_handler_def unadvertise_handler_def
    unadvertiseServices_handler_def
  by (rule foldl_view, simp split: option.splits)+

lemma step_keeps_channels:
  assumes "\<not> writes_channels i"
  shows "channelsByName (step s i) = channelsByName s"
proof (cases i)
  case (Send m)
  then show ?thesis using directory_channelsByName(1) [of "send s m" s] by simp
next
  case (Emit e)
  show ?thesis
  proof (cases e)
    case (ev_advertise cs)
    then show ?thesis using assms Emit by simp
  next
    case (ev_unadvertise ids)
    then show ?thesis using assms Emit by simp
  next
    case (ev_advertiseServices vs)
    have "directory (emit s e) = directory (advertiseServices_handler s vs)"
      unfolding ev_advertiseServices emit.simps by (rule foldl_view) simp
    from directory_channelsByName(1) [OF this] show ?thesis
      by (simp add: Emit handlers_keep_other_index)
  next
    case (ev_unadvertiseServices ids)
    then show ?thesis by (simp add: Emit handlers_keep_other_index)
  next
    case (ev_message d)
    have "directory (emit s e) = directory s"
      by (rule emit_directory_other) (simp_all add: ev_message)
    from directory_channelsByName(1) [OF this] show ?thesis by (simp add: Emit)
  next
    case (ev_serviceCallResponse r)
    have "directory (emit s e) = directory s"
      by (rule emit_directory_other) (simp_all add: ev_serviceCallResponse)
    from directory_channelsByName(1) [OF this] show ?thesis by (simp add: Emit)
  next
    case (ev_serviceCallFailure f)
    have "directory (emit s e) = directory s"
      by (rule emit_directory_other) (simp_all add: ev_serviceCallFailure)
    from directory_channelsByName(1) [OF this] show ?thesis by (simp add: Emit)
  next
    case (ev_parameterValues p)
    have "directory (emit s e) = directory s"
      by (rule emit_directory_other) (simp_all add: ev_parameterValues)
    from directory_channelsByName(1) [OF this] show ?thesis by (simp add: Emit)
  next
    case (ev_connectionGraphUpdate g)
    have "directory (emit s e) = directory s"
      by (rule emit_directory_other) (simp_all add: ev_connectionGraphUpdate)
    from directory_channelsByName(1) [OF this] show ?thesis by (simp add: Emit)
  next
    case ev_open
    then show ?thesis by (simp add: Emit)
  next
    case (ev_close c)
    then show ?thesis by (simp add: Emit)
  next
    case (ev_error c)
    then show ?thesis by (simp add: Emit)
  qed
next
  case Close
  then show ?thesis by (simp add: close_def)
next
  case EndOfTask
  then show ?thesis using directory_channelsByName(1) [of "run_microtasks s" s] by simp
qed

lemma step_keeps_services:
  assumes "\<not> writes_services i"
  shows "servicesByName (step s i) = servicesByName s"
proof (cases i)
  case (Send m)
  then show ?thesis using directory_channelsByName(2) [of "send s m" s] by simp
next
  case (Emit e)
  show ?thesis
  proof (cases e)
    case (ev_advertiseServices cs)
    then show ?thesis using assms Emit by simp
  next
    case (ev_unadvertiseServices ids)
    then show ?thesis using assms Emit by simp
  next
    case (ev_advertise cs)
    have "directory (emit s e) = directory (advertise_handler s cs)"
      unfolding ev_advertise emit.simps by (rule foldl_view) simp
    from directory_channelsByName(2) [OF this] show ?thesis
      by (simp add: Emit handlers_keep_other_index)
  next
    case (ev_unadvertise ids)
    then show ?thesis by (simp add: Emit handlers_keep_other_index)
  next
    case (ev_message d)
    have "directory (emit s e) = directory s"
      by (rule emit_directory_other) (simp_all add: ev_message)
    from directory_channelsByName(2) [OF this] show ?thesis by (simp add: Emit)
  next
    case (ev_serviceCallResponse r)
    have "directory (emit s e) = directory s"
      by (rule emit_directory_other) (simp_all add: ev_serviceCallResponse)
    from directory_channelsByName(2) [OF this] show ?thesis by (simp add: Emit)
  next
    case (ev_serviceCallFailure f)
    have "directory (emit s e) = directory s"
      by (rule emit_directory_other) (simp_all add: ev_serviceCallFailure)
    from directory_channelsByName(2) [OF this] show ?thesis by (simp add: Emit)
  next
    case (ev_parameterValues p)
    have "directory (emit s e) = directory s"
      by (rule emit_directory_other) (simp_all add: ev_parameterValues)
    from directory_channelsByName(2) [OF this] show ?thesis by (simp add: Emit)
  next
    case (ev_connectionGraphUpdate g)
    have "directory (emit s e) = directory s"
      by (rule emit_directory_other) (simp_all add: ev_connectionGraphUpdate)
    from directory_channelsByName(2) [OF this] show ?thesis by (simp add: Emit)
  next
    case ev_open
    then show ?thesis by (simp add: Emit)
  next
    case (ev_close c)
    then show ?thesis by (simp add: Emit)
  next
    case (ev_error c)
    then show ?thesis by (simp add: Emit)
  qed
next
  case Close
  then show ?thesis by (simp add: close_def)
next
  case EndOfTask
  then show ?thesis using directory_channelsByName(2) [of "run_microtasks s" s] by simp
qed


text \<open>
  C5, as the code has it. A lookup returns at once exactly when the name index holds the
  name. An advertisement enters every channel of its batch in the name index under its
  topic, the last channel of a name replacing the earlier ones; the retraction of an id
  removes the topic of the channel that the id index holds under that id, whatever the
  id of the channel that the name index holds under the topic; no other input changes the
  name index. A lookup of a name that the name index holds hands the channel to the caller
  at once, without registering a listener. Otherwise it registers a listener for the name.
  An advertise event then resumes every registered lookup whose name occurs in the batch,
  each once, in the order of registration, with the first channel of the batch that has
  the name, and detaches those listeners; the lookups of other names stay registered and
  are not resumed. So one event resolves all the callers that wait on the same name. The
  lookup of a service behaves in the same way.
\<close>

theorem lookup_by_name:
  "map_of (channelsByName (emit s (ev_advertise channels))) name =
     (case channel_named (rev channels) name of
        Some c \<Rightarrow> Some c
      | None \<Rightarrow> map_of (channelsByName s) name) \<and>
   map_of (channelsByName (emit s (ev_unadvertise [i]))) name =
     (case map_of (channelsById s) i of
        Some c \<Rightarrow> if ch_topic c = name then None else map_of (channelsByName s) name
      | None \<Rightarrow> map_of (channelsByName s) name) \<and>
   emit s (ev_unadvertise (i # ids)) = emit (emit s (ev_unadvertise [i])) (ev_unadvertise ids) \<and>
   (\<not> writes_channels inp \<longrightarrow> channelsByName (step s inp) = channelsByName s) \<and>
   (map_of (channelsByName s) name = Some channel \<longrightarrow>
      getChannel s name k = s\<lparr>microtasks := microtasks s @ [channel_resolved k channel]\<rparr>) \<and>
   (map_of (channelsByName s) name = None \<longrightarrow>
      getChannel s name k = s\<lparr>on_advertise := on_advertise s @ [(name, k)]\<rparr>) \<and>
   on_advertise (emit s (ev_advertise channels)) =
     filter (\<lambda>l. channel_named channels (fst l) = None) (on_advertise s) \<and>
   microtasks (emit s (ev_advertise channels)) =
     microtasks s @
     List.map_filter (\<lambda>l. map_option (channel_resolved (snd l)) (channel_named channels (fst l)))
       (on_advertise s) \<and>
   (channel_named channels name = Some channel \<longrightarrow>
      ch_topic channel = name \<and> channel \<in> set channels) \<and>
   map_of (servicesByName (emit s (ev_advertiseServices services))) sname =
     (case service_named (rev services) sname of
        Some v \<Rightarrow> Some v
      | None \<Rightarrow> map_of (servicesByName s) sname) \<and>
   map_of (servicesByName (emit s (ev_unadvertiseServices [j]))) sname =
     (case map_of (servicesById s) j of
        Some v \<Rightarrow> if sv_name v = sname then None else map_of (servicesByName s) sname
      | None \<Rightarrow> map_of (servicesByName s) sname) \<and>
   emit s (ev_unadvertiseServices (j # jds)) =
     emit (emit s (ev_unadvertiseServices [j])) (ev_unadvertiseServices jds) \<and>
   (\<not> writes_services inp \<longrightarrow> servicesByName (step s inp) = servicesByName s) \<and>
   (map_of (servicesByName s) sname = Some service \<longrightarrow>
      getService s sname m = s\<lparr>microtasks := microtasks s @ [service_resolved m service]\<rparr>) \<and>
   (map_of (servicesByName s) sname = None \<longrightarrow>
      getService s sname m = s\<lparr>on_advertiseServices := on_advertiseServices s @ [(sname, m)]\<rparr>) \<and>
   on_advertiseServices (emit s (ev_advertiseServices services)) =
     filter (\<lambda>l. service_named services (fst l) = None) (on_advertiseServices s) \<and>
   microtasks (emit s (ev_advertiseServices services)) =
     microtasks s @
     List.map_filter (\<lambda>l. map_option (service_resolved (snd l)) (service_named services (fst l)))
       (on_advertiseServices s) \<and>
   (service_named services sname = Some service \<longrightarrow>
      sv_name service = sname \<and> service \<in> set services)"
proof -
  have c: "(map_of (channelsByName s) name = Some channel \<longrightarrow>
      getChannel s name k = s\<lparr>microtasks := microtasks s @ [channel_resolved k channel]\<rparr>) \<and>
   (map_of (channelsByName s) name = None \<longrightarrow>
      getChannel s name k = s\<lparr>on_advertise := on_advertise s @ [(name, k)]\<rparr>)"
    by (simp add: getChannel_def)
  have v: "(map_of (servicesByName s) sname = Some service \<longrightarrow>
      getService s sname m = s\<lparr>microtasks := microtasks s @ [service_resolved m service]\<rparr>) \<and>
   (map_of (servicesByName s) sname = None \<longrightarrow>
      getService s sname m = s\<lparr>on_advertiseServices := on_advertiseServices s @ [(sname, m)]\<rparr>)"
    by (simp add: getService_def)
  show ?thesis
    using c v
      emit_advertise_index [of s channels name]
      emit_unadvertise_index(1) [of s i name] emit_unadvertise_index(2) [of s i ids]
      step_keeps_channels [of inp s]
      emit_advertise_waiters [of s channels] channel_named_Some [of channels name channel]
      emit_advertiseServices_index [of s services sname]
      emit_unadvertiseServices_index(1) [of s j sname] emit_unadvertiseServices_index(2) [of s j jds]
      step_keeps_services [of inp s]
      emit_advertiseServices_waiters [of s services] service_named_Some [of services sname service]
    by blast
qed

theorem lookup_by_name_witness:
  "\<not> writes_channels Close \<and> \<not> writes_services Close \<and>
   map_of (channelsByName (FoxgloveSocket example_library True)) ''/t'' = None \<and>
   getChannel (FoxgloveSocket example_library True) ''/t''
       (subscribe_await (verb ''subscribe'' ''/t'' ''pkg/Msg'')) =
     (FoxgloveSocket example_library True)
       \<lparr>on_advertise := on_advertise (FoxgloveSocket example_library True) @
          [(''/t'', subscribe_await (verb ''subscribe'' ''/t'' ''pkg/Msg''))]\<rparr> \<and>
   map_of (servicesByName (FoxgloveSocket example_library True)) ''/add'' = None \<and>
   getService (FoxgloveSocket example_library True) ''/add''
       (verb ''call_service'' ''/add'' ''pkg/Msg'') =
     (FoxgloveSocket example_library True)
       \<lparr>on_advertiseServices := on_advertiseServices (FoxgloveSocket example_library True) @
          [(''/add'', verb ''call_service'' ''/add'' ''pkg/Msg'')]\<rparr> \<and>
   channel_named [example_channel] ''/t'' = Some example_channel \<and>
   ch_topic example_channel = ''/t'' \<and>
   service_named [example_service] ''/add'' = Some example_service \<and>
   sv_name example_service = ''/add'' \<and>
   map_of (channelsByName (emit (FoxgloveSocket example_library True)
                             (ev_advertise [example_channel]))) ''/t'' = Some example_channel \<and>
   map_of (servicesByName (emit (FoxgloveSocket example_library True)
                             (ev_advertiseServices [example_service]))) ''/add'' =
     Some example_service \<and>
   map_of (channelsByName
             (run (FoxgloveSocket example_library True)
                [Emit (ev_advertise [example_channel]),
                 Emit (ev_advertiseServices [example_service])])) ''/t'' = Some example_channel \<and>
   getChannel
       (run (FoxgloveSocket example_library True)
          [Emit (ev_advertise [example_channel]), Emit (ev_advertiseServices [example_service])])
       ''/t'' (subscribe_await (verb ''subscribe'' ''/t'' ''pkg/Msg'')) =
     (run (FoxgloveSocket example_library True)
        [Emit (ev_advertise [example_channel]), Emit (ev_advertiseServices [example_service])])
       \<lparr>microtasks :=
          microtasks
            (run (FoxgloveSocket example_library True)
               [Emit (ev_advertise [example_channel]),
                Emit (ev_advertiseServices [example_service])]) @
          [channel_resolved (subscribe_await (verb ''subscribe'' ''/t'' ''pkg/Msg''))
             example_channel]\<rparr> \<and>
   map_of (servicesByName
             (run (FoxgloveSocket example_library True)
                [Emit (ev_advertise [example_channel]),
                 Emit (ev_advertiseServices [example_service])])) ''/add'' = Some example_service \<and>
   getService
       (run (FoxgloveSocket example_library True)
          [Emit (ev_advertise [example_channel]), Emit (ev_advertiseServices [example_service])])
       ''/add'' (verb ''call_service'' ''/add'' ''pkg/Msg'') =
     (run (FoxgloveSocket example_library True)
        [Emit (ev_advertise [example_channel]), Emit (ev_advertiseServices [example_service])])
       \<lparr>microtasks :=
          microtasks
            (run (FoxgloveSocket example_library True)
               [Emit (ev_advertise [example_channel]),
                Emit (ev_advertiseServices [example_service])]) @
          [service_resolved (verb ''call_service'' ''/add'' ''pkg/Msg'') example_service]\<rparr> \<and>
   channelsByName
       (step (run (FoxgloveSocket example_library True)
                [Emit (ev_advertise [example_channel]),
                 Emit (ev_advertiseServices [example_service])]) Close) =
     channelsByName
       (run (FoxgloveSocket example_library True)
          [Emit (ev_advertise [example_channel]), Emit (ev_advertiseServices [example_service])]) \<and>
   on_advertise (emit (run (FoxgloveSocket example_library True)
      [Send (verb ''subscribe'' ''/t'' ''pkg/Msg''), Send (verb ''subscribe'' ''/u'' ''pkg/Msg''),
       Send (verb ''advertise'' ''/t'' ''pkg/Msg''), EndOfTask]) (ev_advertise [example_channel])) =
     [(''/u'', subscribe_await (verb ''subscribe'' ''/u'' ''pkg/Msg''))] \<and>
   microtasks (emit (run (FoxgloveSocket example_library True)
      [Send (verb ''subscribe'' ''/t'' ''pkg/Msg''), Send (verb ''subscribe'' ''/u'' ''pkg/Msg''),
       Send (verb ''advertise'' ''/t'' ''pkg/Msg''), EndOfTask]) (ev_advertise [example_channel])) =
     [channel_resolved (subscribe_await (verb ''subscribe'' ''/t'' ''pkg/Msg'')) example_channel,
      channel_resolved (advertise_then 0 0) example_channel]"
proof -
  define S0 where "S0 = FoxgloveSocket example_library True"
  define S2 where "S2 = run S0
     [Emit (ev_advertise [example_channel]), Emit (ev_advertiseServices [example_service])]"
  define W where "W = run S0
      [Send (verb ''subscribe'' ''/t'' ''pkg/Msg''), Send (verb ''subscribe'' ''/u'' ''pkg/Msg''),
       Send (verb ''advertise'' ''/t'' ''pkg/Msg''), EndOfTask]"
  define k0 where "k0 = subscribe_await (verb ''subscribe'' ''/t'' ''pkg/Msg'')"
  define m0 where "m0 = verb ''call_service'' ''/add'' ''pkg/Msg''"
  have h: "\<not> writes_channels Close" "\<not> writes_services Close"
    "map_of (channelsByName S0) ''/t'' = None"
    "map_of (servicesByName S0) ''/add'' = None"
    "channel_named [example_channel] ''/t'' = Some example_channel"
    "service_named [example_service] ''/add'' = Some example_service"
    "map_of (channelsByName S2) ''/t'' = Some example_channel"
    "map_of (servicesByName S2) ''/add'' = Some example_service"
    unfolding S2_def S0_def by code_simp+
  have r: "channel_named (rev [example_channel]) ''/t'' = Some example_channel"
    "service_named (rev [example_service]) ''/add'' = Some example_service"
    by code_simp+
  have w: "filter (\<lambda>l. channel_named [example_channel] (fst l) = None) (on_advertise W) =
             [(''/u'', subscribe_await (verb ''subscribe'' ''/u'' ''pkg/Msg''))]"
    "microtasks W @
     List.map_filter
       (\<lambda>l. map_option (channel_resolved (snd l)) (channel_named [example_channel] (fst l)))
       (on_advertise W) =
     [channel_resolved (subscribe_await (verb ''subscribe'' ''/t'' ''pkg/Msg'')) example_channel,
      channel_resolved (advertise_then 0 0) example_channel]"
    unfolding W_def S0_def by code_simp+
  note a = lookup_by_name [where s = S0 and name = "''/t''" and channel = example_channel
      and channels = "[example_channel]" and k = k0 and inp = Close and i = 7 and ids = "[]"
      and sname = "''/add''" and service = example_service and services = "[example_service]"
      and m = m0 and j = 3 and jds = "[]", unfolded r w option.case]
  note b = lookup_by_name [where s = S2 and name = "''/t''" and channel = example_channel
      and channels = "[example_channel]" and k = k0 and inp = Close and i = 7 and ids = "[]"
      and sname = "''/add''" and service = example_service and services = "[example_service]"
      and m = m0 and j = 3 and jds = "[]"]
  note c = lookup_by_name [where s = W and name = "''/t''" and channel = example_channel
      and channels = "[example_channel]" and k = k0 and inp = Close and i = 7 and ids = "[]"
      and sname = "''/add''" and service = example_service and services = "[example_service]"
      and m = m0 and j = 3 and jds = "[]", unfolded w]
  show ?thesis
    using h a b c
    unfolding S0_def [symmetric] S2_def [symmetric] W_def [symmetric] k0_def [symmetric]
      m0_def [symmetric]
    by blast
qed

text \<open>
  C5 as stated fails: a name can be advertised and the lookup waits all the same. When a
  topic is advertised under a second id and the first id is then retracted, the channel
  with the second id is still advertised, yet the topic has gone from the name index, and
  a subscription to the topic waits for the next advertisement.
\<close>

theorem lookup_waits_for_advertised_name:
  "map_of (channelsById (run (FoxgloveSocket example_library True)
      [Emit (ev_advertise [example_channel]), Emit (ev_advertise [same_name_new_id]),
       Emit (ev_unadvertise [7])])) 8 = Some same_name_new_id \<and>
   ch_topic same_name_new_id = ''/t'' \<and>
   map_of (channelsByName (run (FoxgloveSocket example_library True)
      [Emit (ev_advertise [example_channel]), Emit (ev_advertise [same_name_new_id]),
       Emit (ev_unadvertise [7])])) ''/t'' = None \<and>
   on_advertise (run (FoxgloveSocket example_library True)
      [Emit (ev_advertise [example_channel]), Emit (ev_advertise [same_name_new_id]),
       Emit (ev_unadvertise [7]), EndOfTask,
       Send (verb ''subscribe'' ''/t'' ''pkg/Msg''), EndOfTask]) =
     [(''/t'', subscribe_await (verb ''subscribe'' ''/t'' ''pkg/Msg''))] \<and>
   trace (run (FoxgloveSocket example_library True)
      [Emit (ev_advertise [example_channel]), Emit (ev_advertise [same_name_new_id]),
       Emit (ev_unadvertise [7]), EndOfTask,
       Send (verb ''subscribe'' ''/t'' ''pkg/Msg''), EndOfTask]) = []"
  by code_simp

section \<open>Publishing after unadvertise\<close>

lemma unadvertise_keeps_publish:
  "publishByName (unadvertise s m) = publishByName s \<and> promises (unadvertise s m) = promises s"
  by (simp add: unadvertise_def Let_def split: option.splits)

text \<open>
  C1 does not hold of the code. \<^verbatim>\<open>#unadvertise\<close> removes the entry of
  \<^verbatim>\<open>#unadvertiseByName\<close> only; the promise in \<^verbatim>\<open>#publishByName\<close> stays. A publish after
  the unadvertise finds it, serialises the message and sends it under the publisher id
  that has just been unadvertised.
\<close>

theorem publish_after_unadvertise_sends:
  "trace (run (FoxgloveSocket example_library True)
      [Emit (ev_advertise [example_channel]), EndOfTask,
       Send (verb ''advertise'' ''/t'' ''pkg/Msg''), EndOfTask,
       Send (verb ''unadvertise'' ''/t'' ''pkg/Msg''), EndOfTask,
       Send (verb ''publish'' ''/t'' ''pkg/Msg''), EndOfTask]) =
   [client_advertise ''/t'' ''cdr'' ''pkg/Msg'',
    client_unadvertise 0,
    sendMessage 0 (writeMessage (Ros2MessageWriter 0 (parse ''string data'' True)) ''hello'')]"
  by code_simp

end
